theory Spec2Isabelle
  imports Main "HOL-Library.Word"
begin

text \<open>
  The aggregation pipeline of \<open>server.js\<close>: the bullet normalizer
  (\<open>cleanBullets\<close>), the aggregator (\<open>buildConclusion\<close>), the provider invoker
  (\<open>safeCall\<close>), the evidence retriever (\<open>performWebSearch\<close>), the prompt builder
  (\<open>bulletPrompt\<close>) and the handler of \<open>POST /ask\<close>, as functions over JavaScript
  strings, with the network as a parameter.
\<close>

section \<open>JavaScript values\<close>

text \<open>
  A JavaScript string is a sequence of UTF-16 code units; \<open>.length\<close> counts them.
  String literals of the source are all ASCII and are written \<open>ascii ''...''\<close>.
\<close>

type_synonym jsstring = "16 word list"

definition ascii :: "string \<Rightarrow> jsstring" where
  "ascii s = map of_char s"

text \<open>
  The values that reach the functions below from JSON bodies and from the article
  extractor: a string, \<open>undefined\<close> (a missing property) or \<open>null\<close>.
\<close>

datatype jsval = JUndefined | JNull | JStr jsstring

text \<open>Truthiness: \<open>undefined\<close>, \<open>null\<close> and the empty string are falsy.\<close>

fun truthy :: "jsval \<Rightarrow> bool" where
  "truthy (JStr s) = (s \<noteq> [])"
| "truthy JUndefined = False"
| "truthy JNull = False"

text \<open>\<open>a || b\<close>: the first operand when it is truthy, the second otherwise.\<close>

definition js_or :: "jsval \<Rightarrow> jsval \<Rightarrow> jsval" where
  "js_or a b = (if truthy a then a else b)"

text \<open>How a value is rendered inside a template literal \<open>`${v}`\<close>.\<close>

fun to_str :: "jsval \<Rightarrow> jsstring" where
  "to_str (JStr s) = s"
| "to_str JUndefined = ascii ''undefined''"
| "to_str JNull = ascii ''null''"

text \<open>
  The characters matched by \<open>\s\<close> in a regular expression, which are also the ones
  removed by \<open>String.prototype.trim\<close>: WhiteSpace and LineTerminator of ECMAScript.
\<close>

definition is_space :: "16 word \<Rightarrow> bool" where
  "is_space c =
     (c \<in> {0x09, 0x0A, 0x0B, 0x0C, 0x0D, 0x20, 0xA0, 0x1680, 0x2028, 0x2029,
            0x202F, 0x205F, 0x3000, 0xFEFF}
      \<or> (0x2000 \<le> c \<and> c \<le> 0x200A))"

definition trim :: "jsstring \<Rightarrow> jsstring" where
  "trim s = rev (dropWhile is_space (rev (dropWhile is_space s)))"

text \<open>\<open>s.split("\n")\<close>: never empty, the empty string gives one empty piece.\<close>

fun split_nl :: "jsstring \<Rightarrow> jsstring list" where
  "split_nl [] = [[]]"
| "split_nl (c # cs) =
     (if c = 0x0A then [] # split_nl cs
      else (case split_nl cs of
              [] \<Rightarrow> [[c]]
            | l # ls \<Rightarrow> (c # l) # ls))"

text \<open>\<open>xs.join("\n")\<close>.\<close>

fun join_nl :: "jsstring list \<Rightarrow> jsstring" where
  "join_nl [] = []"
| "join_nl [x] = x"
| "join_nl (x # y # ys) = x @ 0x0A # join_nl (y # ys)"

text \<open>
  \<open>xs.slice(0, e)\<close> for an integer \<open>e\<close>: a negative end counts from the end of
  the array.
\<close>

definition slice0 :: "'a list \<Rightarrow> int \<Rightarrow> 'a list" where
  "slice0 xs e =
     (if e < 0 then take (nat (int (length xs) + e)) xs else take (nat e) xs)"

section \<open>The bullet normalizer\<close>

text \<open>
  \<^verbatim>\<open>
  const cleanBullets = (text, max = 8) =>
    text
      .split("\n")
      .map((l) => l.replace(/^[*\-#\s]+/, "").replace(/[*#`]/g, "").trim())
      .filter((l) => l.length > 3)
      .slice(0, max)
      .map((l) => `- ${l}`)
      .join("\n");
  \<close>
\<close>

text \<open>The class \<open>[*\-#\s]\<close> of the first regular expression.\<close>

definition is_marker :: "16 word \<Rightarrow> bool" where
  "is_marker c = (c = 0x2A \<or> c = 0x2D \<or> c = 0x23 \<or> is_space c)"

text \<open>The class \<open>[*#`]\<close> of the second one.\<close>

definition is_inline :: "16 word \<Rightarrow> bool" where
  "is_inline c = (c = 0x2A \<or> c = 0x23 \<or> c = 0x60)"

definition clean_line :: "jsstring \<Rightarrow> jsstring" where
  "clean_line l = trim (filter (\<lambda>c. \<not> is_inline c) (dropWhile is_marker l))"

definition kept_lines :: "jsstring \<Rightarrow> int \<Rightarrow> jsstring list" where
  "kept_lines text mx =
     slice0 (filter (\<lambda>l. 3 < length l) (map clean_line (split_nl text))) mx"

definition cleanBullets :: "jsstring \<Rightarrow> int \<Rightarrow> jsstring" where
  "cleanBullets text mx = join_nl (map (\<lambda>l. ascii ''- '' @ l) (kept_lines text mx))"

text \<open>
  The lines of an output text: the pieces between the line breaks, the empty text
  having no line at all.
\<close>

definition output_lines :: "jsstring \<Rightarrow> jsstring list" where
  "output_lines s = (if s = [] then [] else split_nl s)"

section \<open>The aggregator\<close>

text \<open>
  An evidence record, as the retriever builds it:
  \<^verbatim>\<open>{ url: res.link, title: ..., date: ..., excerpt: ... }\<close>.
  The excerpt is always a string; the other fields are whatever the search result
  and the extractor delivered.
\<close>

record evidence =
  url :: jsval
  title :: jsval
  date :: jsval
  excerpt :: jsstring

text \<open>
  \<open>citationsMap\<close> is a plain object (\<open>{}\<close>) indexed by bullet texts, which are
  arbitrary strings. A read \<open>citationsMap[b]\<close> that finds no own property goes on
  along the prototype chain, and the write \<open>citationsMap["__proto__"] = e\<close> goes to
  the accessor of \<open>Object.prototype\<close>, which makes \<open>e\<close> the prototype of the object
  instead of storing a property. The model keeps the own properties and the
  prototype the object has been given, if any.
\<close>

record citations =
  own :: "jsstring \<rightharpoonup> evidence"
  proto :: "evidence option"

definition empty_object :: citations where
  "empty_object = \<lparr>own = Map.empty, proto = None\<rparr>"

text \<open>The property names of \<open>Object.prototype\<close>; all of them hold truthy values.\<close>

definition object_prototype_keys :: "jsstring list" where
  "object_prototype_keys = map ascii
     [''constructor'', ''__defineGetter__'', ''__defineSetter__'', ''hasOwnProperty'',
      ''__lookupGetter__'', ''__lookupSetter__'', ''isPrototypeOf'',
      ''propertyIsEnumerable'', ''toString'', ''valueOf'', ''__proto__'',
      ''toLocaleString'']"

text \<open>The own properties of an evidence record, read by name.\<close>

definition evidence_field :: "evidence \<Rightarrow> jsstring \<Rightarrow> jsval option" where
  "evidence_field e k =
     (if k = ascii ''url'' then Some (url e)
      else if k = ascii ''title'' then Some (title e)
      else if k = ascii ''date'' then Some (date e)
      else if k = ascii ''excerpt'' then Some (JStr (excerpt e))
      else None)"

text \<open>
  What \<open>citationsMap[b]\<close> evaluates to: a falsy value, an evidence record, or a
  truthy value that is no evidence record (a function or the object
  \<open>Object.prototype\<close>, or a string found in a record that became the prototype); the
  properties \<open>title\<close>, \<open>url\<close> and \<open>date\<close> of the latter are \<open>undefined\<close>.
\<close>

datatype looked_up = Falsy | Cited evidence | Inherited

text \<open>\<open>citationsMap[b] = e\<close>\<close>

definition set_citation :: "citations \<Rightarrow> jsstring \<Rightarrow> evidence \<Rightarrow> citations" where
  "set_citation m b e =
     (if b = ascii ''__proto__'' then m\<lparr>proto := Some e\<rparr>
      else m\<lparr>own := (own m)(b \<mapsto> e)\<rparr>)"

text \<open>\<open>citationsMap[b]\<close>\<close>

definition get_citation :: "citations \<Rightarrow> jsstring \<Rightarrow> looked_up" where
  "get_citation m b =
     (case own m b of
        Some e \<Rightarrow> Cited e
      | None \<Rightarrow>
          (case proto m of
             Some e \<Rightarrow>
               (if b = ascii ''__proto__'' then Cited e
                else (case evidence_field e b of
                        Some v \<Rightarrow> if truthy v then Inherited else Falsy
                      | None \<Rightarrow> if b \<in> set object_prototype_keys then Inherited else Falsy))
           | None \<Rightarrow> if b \<in> set object_prototype_keys then Inherited else Falsy))"

text \<open>
  \<^verbatim>\<open>citationsMap[b] ? ` [${citationsMap[b].title}](${citationsMap[b].url}) (${citationsMap[b].date || 'N/A'})` : ''\<close>
\<close>

fun citation_suffix :: "looked_up \<Rightarrow> jsstring" where
  "citation_suffix Falsy = []"
| "citation_suffix (Cited e) =
     ascii '' ['' @ to_str (title e) @ ascii '']('' @ to_str (url e) @ ascii '') (''
       @ to_str (js_or (date e) (JStr (ascii ''N/A''))) @ ascii '')''"
| "citation_suffix Inherited = ascii '' [undefined](undefined) (N/A)''"

text \<open>\<open>l.replace(/^-\s*/, "")\<close>\<close>

definition strip_dash :: "jsstring \<Rightarrow> jsstring" where
  "strip_dash l =
     (case l of
        [] \<Rightarrow> []
      | c # cs \<Rightarrow> if c = 0x2D then dropWhile is_space cs else l)"

text \<open>
  \<^verbatim>\<open>text.split("\n").map((l) => l.replace(/^-\s*/, "").trim()).filter((l) => l.length > 3)\<close>
\<close>

definition bullets_of :: "jsstring \<Rightarrow> jsstring list" where
  "bullets_of text = filter (\<lambda>l. 3 < length l) (map (\<lambda>l. trim (strip_dash l)) (split_nl text))"

text \<open>The two variables the loops of \<open>buildConclusion\<close> update.\<close>

record aggregation =
  lines :: "jsstring list"
  citationsMap :: citations

text \<open>
  \<^verbatim>\<open>
  bullets.forEach((b, i) => {
    lines.push(b);
    if (sources[model] && sources[model][i]) {
      citationsMap[b] = sources[model][i];
    }
  });
  \<close>
  The first argument is \<open>sources[model]\<close>: \<open>None\<close> when the object has no array for
  the model (what a model name finds on \<open>Object.prototype\<close> instead has no element
  at any index, so that nothing is assigned then either); an index beyond the array
  reads \<open>undefined\<close>.
\<close>

fun forEach_bullet ::
  "evidence list option \<Rightarrow> nat \<Rightarrow> jsstring list \<Rightarrow> aggregation \<Rightarrow> aggregation" where
  "forEach_bullet model_sources i [] st = st"
| "forEach_bullet model_sources i (b # bs) st =
     forEach_bullet model_sources (Suc i) bs
       \<lparr>lines = lines st @ [b],
        citationsMap =
          (case model_sources of
             None \<Rightarrow> citationsMap st
           | Some evs \<Rightarrow>
               if i < length evs then set_citation (citationsMap st) b (evs ! i)
               else citationsMap st)\<rparr>"

text \<open>
  \<open>for (const [model, text] of Object.entries(results))\<close>: the results are given as
  their entries, in the order of \<open>Object.entries\<close>.
\<close>

fun for_entries ::
  "(jsstring \<rightharpoonup> evidence list) \<Rightarrow> (jsstring \<times> jsstring) list \<Rightarrow> aggregation \<Rightarrow> aggregation" where
  "for_entries srcs [] st = st"
| "for_entries srcs ((model, text) # rest) st =
     for_entries srcs rest (forEach_bullet (srcs model) 0 (bullets_of text) st)"

text \<open>
  \<open>[...new Set(lines)]\<close>: a set keeps its elements in the order of their first
  insertion, and adding an element it already holds changes nothing.
\<close>

definition set_add :: "'a list \<Rightarrow> 'a \<Rightarrow> 'a list" where
  "set_add seen x = (if x \<in> set seen then seen else seen @ [x])"

definition new_Set :: "'a list \<Rightarrow> 'a list" where
  "new_Set xs = foldl set_add [] xs"

definition aggregate :: "(jsstring \<times> jsstring) list \<Rightarrow> (jsstring \<rightharpoonup> evidence list) \<Rightarrow> aggregation" where
  "aggregate results srcs = for_entries srcs results \<lparr>lines = [], citationsMap = empty_object\<rparr>"

text \<open>\<open>const unique = [...new Set(lines)].slice(0, 5);\<close>\<close>

definition unique :: "(jsstring \<times> jsstring) list \<Rightarrow> (jsstring \<rightharpoonup> evidence list) \<Rightarrow> jsstring list" where
  "unique results srcs = take 5 (new_Set (lines (aggregate results srcs)))"

text \<open>
  \<^verbatim>\<open>
  return unique.map((b) => {
    const cit = citationsMap[b] ? ... : '';
    return `- ${b}${cit}`;
  }).join("\n");
  \<close>
\<close>

definition conclusion_line :: "citations \<Rightarrow> jsstring \<Rightarrow> jsstring" where
  "conclusion_line m b = ascii ''- '' @ b @ citation_suffix (get_citation m b)"

definition buildConclusion :: "(jsstring \<times> jsstring) list \<Rightarrow> (jsstring \<rightharpoonup> evidence list) \<Rightarrow> jsstring" where
  "buildConclusion results srcs =
     join_nl (map (conclusion_line (citationsMap (aggregate results srcs))) (unique results srcs))"

text \<open>
  The assignments to \<open>citationsMap\<close> as the specification words them: for every
  provider in order, the bullet at index \<open>i\<close> with the evidence at index \<open>i\<close>, as
  far as both exist.
\<close>

definition citation_writes ::
  "(jsstring \<times> jsstring) list \<Rightarrow> (jsstring \<rightharpoonup> evidence list) \<Rightarrow> (jsstring \<times> evidence) list" where
  "citation_writes results srcs =
     concat (map (\<lambda>(model, text).
                    case srcs model of
                      None \<Rightarrow> []
                    | Some evs \<Rightarrow> zip (bullets_of text) evs)
               results)"

text \<open>
  An evidence record whose title, url and date, as they are pasted into a citation,
  hold no line break.
\<close>

definition one_line :: "evidence \<Rightarrow> bool" where
  "one_line e =
     (0x0A \<notin> set (to_str (title e)) \<and> 0x0A \<notin> set (to_str (url e))
      \<and> 0x0A \<notin> set (to_str (date e)))"

text \<open>
  Deduplication as the specification words it: every text once, at the place of its
  first occurrence.
\<close>

fun first_occurrences :: "'a list \<Rightarrow> 'a list" where
  "first_occurrences [] = []"
| "first_occurrences (x # xs) = x # removeAll x (first_occurrences xs)"

section \<open>The outside world\<close>

text \<open>
  The search service, the page fetches with their extraction and the completion
  providers are parameters of the model. Every external call is recorded, in the
  order in which the calls are started.
\<close>

text \<open>One entry of \<open>data.organic_results\<close>.\<close>

record search_result =
  link :: jsval
  res_title :: jsval
  res_date :: jsval

text \<open>What \<open>reader.parse()\<close> returns when it returns an article.\<close>

record article =
  art_title :: jsval
  art_excerpt :: jsval
  textContent :: jsval
  publishedTime :: jsval

text \<open>
  \<open>axios.get(searchUrl)\<close>: it throws, or it delivers a body whose
  \<open>organic_results\<close> may be missing.
\<close>

datatype search_response = SearchFailed | SearchData "search_result list option"

text \<open>
  Fetching and parsing one page: something throws, or \<open>reader.parse()\<close> returns an
  article or \<open>null\<close>.
\<close>

datatype page_response = PageFailed | PageParsed "article option"

datatype provider = OpenAI | Mistral | Claude | Gemini

record upload =
  buffer :: "8 word list"
  mimetype :: jsstring

text \<open>
  One exchange with a provider: \<open>axios.post\<close> throws, or it delivers a body. Of the
  body the model keeps what is found at the place of the generated text:
  \<open>None\<close> when an object on the way to it is missing, the value otherwise.
\<close>

datatype provider_response = RequestFailed | Replied "jsval option"

record world =
  search_get :: "jsstring \<Rightarrow> search_response"
  page_get :: "jsval \<Rightarrow> page_response"
  provider_post :: "provider \<Rightarrow> jsstring \<Rightarrow> upload option \<Rightarrow> provider_response"

datatype call =
    SearchCall jsstring
  | PageCall jsval
  | ProviderCall provider jsstring "upload option"

text \<open>The outcome of a block that may throw.\<close>

datatype 'a attempt = Threw | Returned 'a

section \<open>The evidence retriever\<close>

text \<open>\<open>v || 'literal'\<close>, which is a string whenever \<open>v\<close> is a string or missing.\<close>

definition str_or :: "jsval \<Rightarrow> jsstring \<Rightarrow> jsstring" where
  "str_or v d = (case js_or v (JStr d) of JStr s \<Rightarrow> s | _ \<Rightarrow> d)"

text \<open>\<open>v?.substring(0, n)\<close>\<close>

fun substring0 :: "jsval \<Rightarrow> nat \<Rightarrow> jsval" where
  "substring0 (JStr s) n = JStr (take n s)"
| "substring0 JUndefined n = JUndefined"
| "substring0 JNull n = JUndefined"

text \<open>\<open>article?.f\<close>\<close>

definition opt_field :: "article option \<Rightarrow> (article \<Rightarrow> jsval) \<Rightarrow> jsval" where
  "opt_field a f = (case a of None \<Rightarrow> JUndefined | Some x \<Rightarrow> f x)"

text \<open>
  \<^verbatim>\<open>
  return {
    url: res.link,
    title: article?.title || res.title,
    date: res.date || article?.publishedTime || 'N/A',
    excerpt: article?.excerpt || article?.textContent?.substring(0, 1000) || 'No content',
  };
  \<close>
\<close>

definition make_evidence :: "search_result \<Rightarrow> article option \<Rightarrow> evidence" where
  "make_evidence res a =
     \<lparr>url = link res,
      title = js_or (opt_field a art_title) (res_title res),
      date = js_or (js_or (res_date res) (opt_field a publishedTime)) (JStr (ascii ''N/A'')),
      excerpt = str_or (js_or (opt_field a art_excerpt) (substring0 (opt_field a textContent) 1000))
                  (ascii ''No content'')\<rparr>"

text \<open>The callback run on each of the results: \<open>None\<close> is its \<open>null\<close>.\<close>

definition extract_page :: "world \<Rightarrow> search_result \<Rightarrow> evidence option" where
  "extract_page w res =
     (case page_get w (link res) of
        PageFailed \<Rightarrow> None
      | PageParsed a \<Rightarrow> Some (make_evidence res a))"

text \<open>
  \<open>encodeURIComponent(query)\<close> throws a \<open>URIError\<close> on a string that is not well
  formed, that is, one with a surrogate code unit outside a pair: a lead surrogate
  not followed by a trail surrogate, or a trail surrogate not preceded by a lead.
\<close>

definition is_lead :: "16 word \<Rightarrow> bool" where
  "is_lead c = (0xD800 \<le> c \<and> c \<le> 0xDBFF)"

definition is_trail :: "16 word \<Rightarrow> bool" where
  "is_trail c = (0xDC00 \<le> c \<and> c \<le> 0xDFFF)"

fun well_formed :: "jsstring \<Rightarrow> bool" where
  "well_formed [] = True"
| "well_formed [c] = (\<not> is_lead c \<and> \<not> is_trail c)"
| "well_formed (c # d # ds) =
     (if is_lead c then is_trail d \<and> well_formed ds
      else \<not> is_trail c \<and> well_formed (d # ds))"

text \<open>
  The body of the outer \<open>try\<close>: the search URL is built with
  \<open>encodeURIComponent(query)\<close>, which throws before any request when the query is
  not well formed; then the search, then the first five results fetched and those
  that gave \<open>null\<close> filtered out.
\<close>

definition search_and_extract :: "world \<Rightarrow> jsstring \<Rightarrow> evidence list attempt \<times> call list" where
  "search_and_extract w query =
     (if \<not> well_formed query then (Threw, [])
      else case search_get w query of
        SearchFailed \<Rightarrow> (Threw, [SearchCall query])
      | SearchData organic \<Rightarrow>
          (let results = (case organic of None \<Rightarrow> [] | Some rs \<Rightarrow> rs);
               top = take 5 results
           in (Returned (List.map_filter (extract_page w) top),
               SearchCall query # map (\<lambda>res. PageCall (link res)) top)))"

text \<open>\<open>performWebSearch\<close>: the \<open>catch\<close> of the outer \<open>try\<close> returns \<open>[]\<close>.\<close>

definition performWebSearch :: "world \<Rightarrow> jsstring \<Rightarrow> evidence list \<times> call list" where
  "performWebSearch w query =
     (case search_and_extract w query of
        (Threw, cs) \<Rightarrow> ([], cs)
      | (Returned extracted, cs) \<Rightarrow> (extracted, cs))"

section \<open>The prompt builder\<close>

text \<open>A count rendered in a template literal.\<close>

fun number_to_string :: "nat \<Rightarrow> jsstring" where
  "number_to_string n =
     (if n < 10 then [of_nat (48 + n)]
      else number_to_string (n div 10) @ [of_nat (48 + n mod 10)])"

declare number_to_string.simps [simp del]

definition bulletPrompt :: "jsstring \<Rightarrow> jsstring \<Rightarrow> nat \<Rightarrow> bool \<Rightarrow> jsstring" where
  "bulletPrompt q context count analysis =
     ascii ''Answer in '' @ number_to_string count
       @ ascii '' short bullet points (max one line each). Include key facts, trends, and cite sources if provided.''
       @ [0x0A]
       @ (if analysis
          then ascii ''Also identify pros/cons, differing viewpoints, or gaps if applicable.'' @ [0x0A]
          else [])
       @ (if context \<noteq> [] then ascii ''Context from sources: '' @ context @ [0x0A, 0x0A] else [])
       @ ascii ''Q: '' @ q @ [0x0A] @ ascii ''A:''"

text \<open>
  \<^verbatim>\<open>webSources.map(s => `Source: ${s.title} (${s.url}, ${s.date}): ${s.excerpt.substring(0, 500)}`).join('\n')\<close>
\<close>

definition context_of :: "evidence list \<Rightarrow> jsstring" where
  "context_of webSources =
     join_nl (map (\<lambda>s. ascii ''Source: '' @ to_str (title s) @ ascii '' ('' @ to_str (url s)
                          @ ascii '', '' @ to_str (date s) @ ascii ''): '' @ take 500 (excerpt s))
                webSources)"

section \<open>The provider invoker\<close>

text \<open>
  What a request handler has in hand while the providers run: its \<open>sources\<close> object,
  which the provider functions write to, and the calls made so far.
\<close>

record handler_state =
  sources :: "jsstring \<rightharpoonup> evidence list"
  calls :: "call list"

text \<open>
  \<^verbatim>\<open>
  const safeCall = async (fn, fallback, name, maxBullets = 8) => {
    try {
      const raw = await fn();
      return cleanBullets(raw, maxBullets);
    } catch (err) {
      console.error(..., err.response?.data || err.message);
      return typeof fallback === "function" ? fallback(err) : fallback;
    }
  };
  \<close>
  Every fallback of this program is a string, and what its functions throw are
  error objects, on which the \<open>catch\<close> block reads \<open>err.response\<close> without
  throwing itself. \<open>cleanBullets\<close> is inside the \<open>try\<close>: a value that is no
  string has no \<open>split\<close>, which throws there.
\<close>

definition safeCall ::
  "(handler_state \<Rightarrow> jsval attempt \<times> handler_state) \<Rightarrow> jsstring \<Rightarrow> jsstring \<Rightarrow> int
     \<Rightarrow> handler_state \<Rightarrow> jsstring \<times> handler_state" where
  "safeCall fn fallback name maxBullets st =
     (case fn st of
        (Returned (JStr raw), st') \<Rightarrow> (cleanBullets raw maxBullets, st')
      | (Returned _, st') \<Rightarrow> (fallback, st')
      | (Threw, st') \<Rightarrow> (fallback, st'))"

section \<open>The request handler\<close>

definition provider_key :: "provider \<Rightarrow> jsstring" where
  "provider_key p =
     (case p of OpenAI \<Rightarrow> ascii ''openai'' | Mistral \<Rightarrow> ascii ''mistral''
      | Claude \<Rightarrow> ascii ''claude'' | Gemini \<Rightarrow> ascii ''gemini'')"

definition provider_name :: "provider \<Rightarrow> jsstring" where
  "provider_name p =
     (case p of OpenAI \<Rightarrow> ascii ''OpenAI'' | Mistral \<Rightarrow> ascii ''Mistral''
      | Claude \<Rightarrow> ascii ''Claude'' | Gemini \<Rightarrow> ascii ''Gemini'')"

definition provider_fallback :: "provider \<Rightarrow> jsstring" where
  "provider_fallback p = ascii ''Error from '' @ provider_name p"

text \<open>
  The function handed to \<open>safeCall\<close> for a provider in the text flow, for instance
  \<^verbatim>\<open>
  async () => {
    const r = await axios.post(..., bulletPrompt(question, context, 8, true) ...);
    sources.openai = webSources;
    return r.data.choices[0].message.content;
  }
  \<close>
  The assignment to \<open>sources\<close> comes after the exchange and before the body is read;
  reading a body that lacks an object on the way throws.
\<close>

definition text_request ::
  "world \<Rightarrow> provider \<Rightarrow> jsstring \<Rightarrow> evidence list \<Rightarrow> handler_state \<Rightarrow> jsval attempt \<times> handler_state" where
  "text_request w p prompt webSources st =
     (let st1 = st\<lparr>calls := calls st @ [ProviderCall p prompt None]\<rparr>
      in case provider_post w p prompt None of
           RequestFailed \<Rightarrow> (Threw, st1)
         | Replied found \<Rightarrow>
             (let st2 = st1\<lparr>sources := (sources st1)(provider_key p \<mapsto> webSources)\<rparr>
              in case found of
                   None \<Rightarrow> (Threw, st2)
                 | Some v \<Rightarrow> (Returned v, st2)))"

text \<open>
  The function of the file flow, which sends the file along and reads the body with
  optional chaining:
  \<^verbatim>\<open>
    sources.gemini = webSources;
    return data.candidates?.[0]?.content?.parts?.[0]?.text || "No response from Gemini";
  \<close>
\<close>

definition file_request ::
  "world \<Rightarrow> jsstring \<Rightarrow> upload \<Rightarrow> evidence list \<Rightarrow> handler_state \<Rightarrow> jsval attempt \<times> handler_state" where
  "file_request w prompt f webSources st =
     (let st1 = st\<lparr>calls := calls st @ [ProviderCall Gemini prompt (Some f)]\<rparr>
      in case provider_post w Gemini prompt (Some f) of
           RequestFailed \<Rightarrow> (Threw, st1)
         | Replied found \<Rightarrow>
             (let st2 = st1\<lparr>sources := (sources st1)(provider_key Gemini \<mapsto> webSources)\<rparr>
              in (Returned (js_or (case found of None \<Rightarrow> JUndefined | Some v \<Rightarrow> v)
                              (JStr (ascii ''No response from Gemini''))), st2)))"

text \<open>The request: \<open>req.body.question\<close> and \<open>req.file\<close>.\<close>

record request =
  question :: jsval
  req_file :: "upload option"

text \<open>The response: its status and its JSON body.\<close>

datatype body =
    ErrorBody jsstring
  | AnswerBody "(jsstring \<times> jsstring) list" jsstring "evidence list"

record response =
  status :: nat
  body :: body

text \<open>\<open>const question = req.body.question?.trim?.() || "";\<close>\<close>

definition question_of :: "request \<Rightarrow> jsstring" where
  "question_of req = (case question req of JStr s \<Rightarrow> trim s | _ \<Rightarrow> [])"

text \<open>One provider of the text flow, through \<open>safeCall\<close>.\<close>

definition ask_provider ::
  "world \<Rightarrow> provider \<Rightarrow> jsstring \<Rightarrow> evidence list \<Rightarrow> handler_state \<Rightarrow> jsstring \<times> handler_state" where
  "ask_provider w p prompt webSources st =
     safeCall (text_request w p prompt webSources) (provider_fallback p) (provider_name p) 8 st"

definition file_flow :: "world \<Rightarrow> jsstring \<Rightarrow> upload \<Rightarrow> response \<times> call list" where
  "file_flow w q f =
     (let fileQuery = (if q \<noteq> [] then q else ascii ''Describe the uploaded file.'');
          (webSources, cs) = performWebSearch w fileQuery;
          context = context_of webSources;
          (gemini, st) =
             safeCall (file_request w (bulletPrompt fileQuery context 8 True) f webSources)
               (ascii ''Error from Gemini'') (ascii ''Gemini'') 8
               \<lparr>sources = Map.empty, calls = cs\<rparr>;
          results = [(ascii ''gemini'', gemini)]
      in (\<lparr>status = 200,
           body = AnswerBody results (buildConclusion results (sources st)) webSources\<rparr>,
          calls st))"

text \<open>
  The three providers of \<open>Promise.all\<close> start in the order written and write to
  different keys of \<open>sources\<close>; the fourth starts when they are done.
\<close>

definition text_flow :: "world \<Rightarrow> jsstring \<Rightarrow> response \<times> call list" where
  "text_flow w q =
     (let (webSources, cs) = performWebSearch w q;
          context = context_of webSources;
          prompt = bulletPrompt q context 8 True;
          (openai, st1) = ask_provider w OpenAI prompt webSources \<lparr>sources = Map.empty, calls = cs\<rparr>;
          (mistral, st2) = ask_provider w Mistral prompt webSources st1;
          (claude, st3) = ask_provider w Claude prompt webSources st2;
          (gemini, st4) = ask_provider w Gemini prompt webSources st3;
          results = [(ascii ''openai'', openai), (ascii ''mistral'', mistral),
                     (ascii ''claude'', claude), (ascii ''gemini'', gemini)]
      in (\<lparr>status = 200,
           body = AnswerBody results (buildConclusion results (sources st4)) webSources\<rparr>,
          calls st4))"

text \<open>
  \<^verbatim>\<open>
  app.post("/ask", upload.single("file"), async (req, res) => {
    const question = req.body.question?.trim?.() || "";
    let sources = {};
    if (req.file) { ... return res.json({...}); }
    if (!question) return res.status(400).json({ error: "Question cannot be empty" });
    ...
    res.json({ results, conclusion, sources: webSources });
  });
  \<close>
\<close>

definition ask :: "world \<Rightarrow> request \<Rightarrow> response \<times> call list" where
  "ask w req =
     (let q = question_of req
      in case req_file req of
           Some f \<Rightarrow> file_flow w q f
         | None \<Rightarrow>
             if q = [] then (\<lparr>status = 400, body = ErrorBody (ascii ''Question cannot be empty'')\<rparr>, [])
             else text_flow w q)"

section \<open>Splitting and joining\<close>

lemma split_nl_not_Nil: "split_nl s \<noteq> []"
  by (induction s) (auto split: list.splits)

lemma split_nl_no_nl: "l \<in> set (split_nl s) \<Longrightarrow> 0x0A \<notin> set l"
proof (induction s arbitrary: l)
  case Nil
  then show ?case by simp
next
  case (Cons c cs)
  show ?case
  proof (cases "c = 0x0A")
    case True
    with Cons show ?thesis by auto
  next
    case False
    obtain h t where ht: "split_nl cs = h # t"
      using split_nl_not_Nil [of cs] by (cases "split_nl cs") auto
    from Cons.prems False ht have "l = c # h \<or> l \<in> set t" by simp
    then show ?thesis
    proof
      assume "l = c # h"
      moreover have "0x0A \<notin> set h" using Cons.IH [of h] ht by simp
      ultimately show ?thesis using False by auto
    next
      assume "l \<in> set t"
      then show ?thesis using Cons.IH [of l] ht by simp
    qed
  qed
qed

lemma split_nl_single: "0x0A \<notin> set x \<Longrightarrow> split_nl x = [x]"
  by (induction x) auto

lemma split_nl_append:
  "0x0A \<notin> set x \<Longrightarrow> split_nl (x @ 0x0A # s) = x # split_nl s"
  by (induction x) auto

lemma split_join_nl:
  "xs \<noteq> [] \<Longrightarrow> \<forall>x \<in> set xs. 0x0A \<notin> set x \<Longrightarrow> split_nl (join_nl xs) = xs"
proof (induction xs rule: join_nl.induct)
  case 1
  then show ?case by simp
next
  case (2 x)
  then show ?case by (simp add: split_nl_single)
next
  case (3 x y ys)
  then show ?case by (simp add: split_nl_append)
qed

lemma join_nl_Nil_iff: "\<forall>x \<in> set xs. x \<noteq> [] \<Longrightarrow> join_nl xs = [] \<longleftrightarrow> xs = []"
  by (induction xs rule: join_nl.induct) auto

lemma output_lines_join:
  assumes "\<forall>x \<in> set xs. x \<noteq> [] \<and> 0x0A \<notin> set x"
  shows "output_lines (join_nl xs) = xs"
proof (cases "xs = []")
  case True
  then show ?thesis by (simp add: output_lines_def)
next
  case False
  with assms have "join_nl xs \<noteq> []" using join_nl_Nil_iff [of xs] by auto
  with assms False show ?thesis by (simp add: output_lines_def split_join_nl)
qed

section \<open>Trimming\<close>

lemma trim_subset: "set (trim s) \<subseteq> set s"
proof
  fix x
  assume "x \<in> set (trim s)"
  then have "x \<in> set (dropWhile is_space (rev (dropWhile is_space s)))"
    by (simp add: trim_def)
  then have "x \<in> set (rev (dropWhile is_space s))"
    by (rule set_dropWhileD)
  then have "x \<in> set (dropWhile is_space s)"
    by simp
  then show "x \<in> set s"
    by (rule set_dropWhileD)
qed

lemma clean_line_subset: "set (clean_line l) \<subseteq> set l"
proof
  fix x
  assume "x \<in> set (clean_line l)"
  then have "x \<in> set (filter (\<lambda>c. \<not> is_inline c) (dropWhile is_marker l))"
    using trim_subset unfolding clean_line_def by blast
  then have "x \<in> set (dropWhile is_marker l)"
    by simp
  then show "x \<in> set l"
    by (rule set_dropWhileD)
qed

lemma clean_line_no_nl: "0x0A \<notin> set l \<Longrightarrow> 0x0A \<notin> set (clean_line l)"
  using clean_line_subset by blast

lemma slice0_subset: "set (slice0 xs e) \<subseteq> set xs"
  by (auto simp: slice0_def dest: in_set_takeD)

lemma slice0_length: "0 \<le> e \<Longrightarrow> length (slice0 xs e) \<le> nat e"
  by (simp add: slice0_def)

lemma kept_lines_length: "0 \<le> mx \<Longrightarrow> length (kept_lines text mx) \<le> nat mx"
  by (simp add: kept_lines_def slice0_length)

lemma kept_lines_props:
  assumes "l \<in> set (kept_lines text mx)"
  shows "3 < length l" and "0x0A \<notin> set l" and "\<exists>r \<in> set (split_nl text). l = clean_line r"
proof -
  have "set (kept_lines text mx)
      \<subseteq> set (filter (\<lambda>l. 3 < length l) (map clean_line (split_nl text)))"
    unfolding kept_lines_def by (rule slice0_subset)
  with assms have in_f: "l \<in> set (filter (\<lambda>l. 3 < length l) (map clean_line (split_nl text)))"
    by (rule rev_subsetD)
  then show "3 < length l" by simp
  from in_f obtain r where r: "r \<in> set (split_nl text)" "l = clean_line r" by auto
  then show "\<exists>r \<in> set (split_nl text). l = clean_line r" by blast
  from r show "0x0A \<notin> set l" using split_nl_no_nl clean_line_no_nl by blast
qed

lemma cleanBullets_lines:
  "output_lines (cleanBullets text mx) = map (\<lambda>l. ascii ''- '' @ l) (kept_lines text mx)"
  unfolding cleanBullets_def
proof (rule output_lines_join, rule ballI)
  fix x
  assume "x \<in> set (map (\<lambda>l. ascii ''- '' @ l) (kept_lines text mx))"
  then obtain l where l: "l \<in> set (kept_lines text mx)" "x = ascii ''- '' @ l" by auto
  then show "x \<noteq> [] \<and> 0x0A \<notin> set x"
    using kept_lines_props(2) [OF l(1)] by (simp add: ascii_def)
qed

lemma last_dropWhile: "dropWhile P xs \<noteq> [] \<Longrightarrow> last (dropWhile P xs) = last xs"
  by (induction xs) (auto split: if_splits)

lemma trim_ends:
  assumes "trim s \<noteq> []"
  shows "\<not> is_space (hd (trim s))" and "\<not> is_space (last (trim s))"
proof -
  let ?d = "dropWhile is_space s"
  let ?e = "dropWhile is_space (rev ?d)"
  from assms have e: "?e \<noteq> []" by (simp add: trim_def)
  then have "\<not> is_space (hd ?e)" by (rule hd_dropWhile)
  then show "\<not> is_space (last (trim s))" using e by (simp add: trim_def last_rev)
  have d: "?d \<noteq> []"
  proof
    assume a: "?d = []"
    have "?e = []" unfolding a by simp
    with e show False by simp
  qed
  then have nd: "\<not> is_space (hd ?d)" by (rule hd_dropWhile)
  from e have "last ?e = last (rev ?d)" by (rule last_dropWhile)
  then have "last ?e = hd ?d" using d by (simp add: last_rev)
  with nd show "\<not> is_space (hd (trim s))" using e by (simp add: trim_def hd_rev)
qed

lemma trim_fixed:
  assumes "s \<noteq> []" "\<not> is_space (hd s)" "\<not> is_space (last s)"
  shows "trim s = s"
proof -
  from assms have "dropWhile is_space s = s" by (cases s) auto
  moreover from assms have "dropWhile is_space (rev s) = rev s"
    by (cases "rev s") (auto simp: last_rev [symmetric] hd_rev)
  ultimately show ?thesis by (simp add: trim_def)
qed

lemma trim_idem: "trim (trim s) = trim s"
proof (cases "trim s = []")
  case True
  have "trim [] = []" by (simp add: trim_def)
  with True show ?thesis by simp
next
  case False
  then show ?thesis using trim_ends [OF False] by (simp add: trim_fixed)
qed

lemma trim_all_space:
  assumes "\<forall>c \<in> set s. is_space c"
  shows "trim s = []"
proof -
  from assms have d: "dropWhile is_space s = []" by simp
  show ?thesis unfolding trim_def d by simp
qed

section \<open>Properties of the bullet normalizer\<close>

lemma clean_line_no_inline: "c \<in> set (clean_line r) \<Longrightarrow> \<not> is_inline c"
proof -
  assume "c \<in> set (clean_line r)"
  then have "c \<in> set (filter (\<lambda>c. \<not> is_inline c) (dropWhile is_marker r))"
    using trim_subset unfolding clean_line_def by blast
  then show ?thesis by simp
qed

lemma clean_line_trimmed: "trim (clean_line r) = clean_line r"
  by (simp add: clean_line_def trim_idem)

lemma clean_line_hd: "clean_line r \<noteq> [] \<Longrightarrow> \<not> is_space (hd (clean_line r))"
  unfolding clean_line_def by (rule trim_ends(1))

text \<open>A normalized line without a leading dash is what the normalizer makes of its bullet.\<close>

lemma clean_line_bullet:
  assumes "l = clean_line r" and "l \<noteq> []" and "hd l \<noteq> 0x2D"
  shows "clean_line (ascii ''- '' @ l) = l"
proof -
  from assms(2) obtain c cs where l: "l = c # cs" by (cases l) auto
  have "c \<in> set l" by (simp add: l)
  then have "c \<in> set (clean_line r)" unfolding assms(1) .
  then have "\<not> is_inline c" by (rule clean_line_no_inline)
  moreover have "\<not> is_space (hd l)"
    using assms(2) unfolding assms(1) by (rule clean_line_hd)
  then have "\<not> is_space c" by (simp add: l)
  moreover have "c \<noteq> 0x2D" using assms(3) l by simp
  ultimately have "\<not> is_marker c" by (auto simp: is_marker_def is_inline_def)
  moreover have "is_marker 0x2D" and "is_marker 0x20"
    by (simp_all add: is_marker_def is_space_def)
  ultimately have "dropWhile is_marker (ascii ''- '' @ l) = l"
    by (simp add: l ascii_def)
  moreover have "filter (\<lambda>c. \<not> is_inline c) l = l"
    unfolding assms(1) using clean_line_no_inline [of _ r] by (simp add: filter_id_conv)
  moreover have "trim l = l" unfolding assms(1) by (rule clean_line_trimmed)
  ultimately show ?thesis by (simp add: clean_line_def)
qed

lemma strip_dash_bullet:
  assumes "l = clean_line r" and "l \<noteq> []"
  shows "trim (strip_dash (ascii ''- '' @ l)) = l"
proof -
  have "\<not> is_space (hd l)"
    using assms(2) unfolding assms(1) by (rule clean_line_hd)
  moreover have "is_space 0x20" by (simp add: is_space_def)
  ultimately have "strip_dash (ascii ''- '' @ l) = l"
    using assms(2) by (cases l) (simp_all add: strip_dash_def ascii_def)
  moreover have "trim l = l" unfolding assms(1) by (rule clean_line_trimmed)
  ultimately show ?thesis by simp
qed

text \<open>
  Claim C4. For every input text and every maximum (a count, so not negative), the
  output of the normalizer has at most that many lines, every line of it begins with
  the marker \<open>"- "\<close>, and what follows the marker is an input line with its markers
  stripped and trimmed, of length greater than 3; it is also what the aggregator
  recovers from the line when it strips the marker and trims.
\<close>

theorem cleanBullets_bounded:
  assumes "0 \<le> mx"
  shows "length (output_lines (cleanBullets text mx)) \<le> nat mx \<and>
         (\<forall>ln \<in> set (output_lines (cleanBullets text mx)).
            take 2 ln = ascii ''- '' \<and> 3 < length (drop 2 ln) \<and>
            (\<exists>r \<in> set (split_nl text). drop 2 ln = clean_line r) \<and>
            trim (strip_dash ln) = drop 2 ln)"
proof (intro conjI ballI)
  show "length (output_lines (cleanBullets text mx)) \<le> nat mx"
    using assms by (simp add: cleanBullets_lines kept_lines_length)
next
  fix ln
  assume "ln \<in> set (output_lines (cleanBullets text mx))"
  then obtain l where l: "l \<in> set (kept_lines text mx)" "ln = ascii ''- '' @ l"
    by (auto simp: cleanBullets_lines)
  show "take 2 ln = ascii ''- ''" using l(2) by (simp add: ascii_def)
  have d: "drop 2 ln = l" using l(2) by (simp add: ascii_def)
  show "3 < length (drop 2 ln)" using kept_lines_props(1) [OF l(1)] d by simp
  show "\<exists>r \<in> set (split_nl text). drop 2 ln = clean_line r"
    using kept_lines_props(3) [OF l(1)] d by simp
  from kept_lines_props(3) [OF l(1)] obtain r where "l = clean_line r" by blast
  moreover from kept_lines_props(1) [OF l(1)] have "l \<noteq> []" by auto
  ultimately have "trim (strip_dash (ascii ''- '' @ l)) = l" by (rule strip_dash_bullet)
  then show "trim (strip_dash ln) = drop 2 ln" using d by (simp add: l(2))
qed

theorem cleanBullets_bounded_witness:
  "(0::int) \<le> 8 \<and>
   output_lines (cleanBullets (ascii ''## Hello `world`'' @ 0x0A # ascii '' * ab'' @ 0x0A # ascii ''1. item'') 8)
     = [ascii ''- Hello world'', ascii ''- 1. item''] \<and>
   length (output_lines (cleanBullets (ascii ''## Hello `world`'' @ 0x0A # ascii '' * ab'' @ 0x0A # ascii ''1. item'') 8)) \<le> nat 8 \<and>
   take 2 (ascii ''- Hello world'') = ascii ''- '' \<and>
   3 < length (drop 2 (ascii ''- Hello world'')) \<and>
   take 2 (ascii ''- 1. item'') = ascii ''- '' \<and>
   3 < length (drop 2 (ascii ''- 1. item''))"
proof -
  have h: "(0::int) \<le> 8" by simp
  have e: "output_lines (cleanBullets (ascii ''## Hello `world`'' @ 0x0A # ascii '' * ab'' @ 0x0A # ascii ''1. item'') 8)
     = [ascii ''- Hello world'', ascii ''- 1. item'']"
    by code_simp
  from cleanBullets_bounded [OF h, of "ascii ''## Hello `world`'' @ 0x0A # ascii '' * ab'' @ 0x0A # ascii ''1. item''"]
  show ?thesis unfolding e by simp
qed

lemma kept_lines_bullets:
  assumes "0 \<le> mx" and "\<forall>l \<in> set (kept_lines text mx). hd l \<noteq> 0x2D"
  shows "kept_lines (cleanBullets text mx) mx = kept_lines text mx"
proof (cases "kept_lines text mx = []")
  case True
  have "kept_lines [] mx = []"
    by (simp add: kept_lines_def slice0_def clean_line_def trim_def)
  moreover from True have "cleanBullets text mx = []"
    by (simp add: cleanBullets_def)
  ultimately show ?thesis using True by simp
next
  case False
  let ?ks = "kept_lines text mx"
  let ?bs = "map (\<lambda>l. ascii ''- '' @ l) ?ks"
  have "\<forall>x \<in> set ?bs. 0x0A \<notin> set x"
    using kept_lines_props(2) [of _ "text" mx] by (auto simp: ascii_def)
  with False have sp: "split_nl (cleanBullets text mx) = ?bs"
    by (simp add: cleanBullets_def split_join_nl)
  have each: "clean_line (ascii ''- '' @ l) = l" if "l \<in> set ?ks" for l
  proof -
    from kept_lines_props(3) [OF that] obtain r where "l = clean_line r" by blast
    moreover from kept_lines_props(1) [OF that] have "l \<noteq> []" by auto
    moreover from assms(2) that have "hd l \<noteq> 0x2D" by blast
    ultimately show ?thesis by (rule clean_line_bullet)
  qed
  then have "map clean_line ?bs = ?ks" by (simp add: map_idI)
  moreover have "filter (\<lambda>l. 3 < length l) ?ks = ?ks"
    using kept_lines_props(1) [of _ "text" mx] by (simp add: filter_id_conv)
  moreover have "slice0 ?ks mx = ?ks"
    using kept_lines_length [OF assms(1), of "text"] assms(1) by (simp add: slice0_def)
  moreover have "kept_lines (cleanBullets text mx) mx
      = slice0 (filter (\<lambda>l. 3 < length l) (map clean_line ?bs)) mx"
    using sp by (simp add: kept_lines_def)
  ultimately show ?thesis by simp
qed

text \<open>
  Claim C8, as amended. For every input text and maximum (not negative), if no line
  of the normalizer's output has a dash right after the marker, then normalizing the
  output again gives the same output.
\<close>

theorem cleanBullets_fixed_point:
  assumes "0 \<le> mx"
    and "\<forall>ln \<in> set (output_lines (cleanBullets text mx)). take 3 ln \<noteq> ascii ''- -''"
  shows "cleanBullets (cleanBullets text mx) mx = cleanBullets text mx"
proof -
  have "\<forall>l \<in> set (kept_lines text mx). hd l \<noteq> 0x2D"
  proof
    fix l
    assume l: "l \<in> set (kept_lines text mx)"
    then have "ascii ''- '' @ l \<in> set (output_lines (cleanBullets text mx))"
      by (simp add: cleanBullets_lines)
    with assms(2) have "take 3 (ascii ''- '' @ l) \<noteq> ascii ''- -''" by blast
    moreover from kept_lines_props(1) [OF l] obtain c cs where "l = c # cs" by (cases l) auto
    ultimately show "hd l \<noteq> 0x2D" by (auto simp: ascii_def)
  qed
  with assms(1) have "kept_lines (cleanBullets text mx) mx = kept_lines text mx"
    by (rule kept_lines_bullets)
  then have "join_nl (map (\<lambda>l. ascii ''- '' @ l) (kept_lines (cleanBullets text mx) mx))
      = join_nl (map (\<lambda>l. ascii ''- '' @ l) (kept_lines text mx))"
    by simp
  then show ?thesis unfolding cleanBullets_def [symmetric] .
qed

theorem cleanBullets_fixed_point_witness:
  "(0::int) \<le> 8 \<and>
   output_lines (cleanBullets (ascii ''## Hello `world`'' @ 0x0A # ascii '' * ab'' @ 0x0A # ascii ''1. item'') 8)
     = [ascii ''- Hello world'', ascii ''- 1. item''] \<and>
   cleanBullets (cleanBullets (ascii ''## Hello `world`'' @ 0x0A # ascii '' * ab'' @ 0x0A # ascii ''1. item'') 8) 8
     = cleanBullets (ascii ''## Hello `world`'' @ 0x0A # ascii '' * ab'' @ 0x0A # ascii ''1. item'') 8"
proof -
  have h: "(0::int) \<le> 8" by simp
  have e: "output_lines (cleanBullets (ascii ''## Hello `world`'' @ 0x0A # ascii '' * ab'' @ 0x0A # ascii ''1. item'') 8)
     = [ascii ''- Hello world'', ascii ''- 1. item'']"
    by code_simp
  have n: "\<forall>ln \<in> set (output_lines (cleanBullets (ascii ''## Hello `world`'' @ 0x0A # ascii '' * ab'' @ 0x0A # ascii ''1. item'') 8)).
      take 3 ln \<noteq> ascii ''- -''"
    unfolding e by (simp add: ascii_def)
  from h e cleanBullets_fixed_point [OF h n] show ?thesis by blast
qed

text \<open>
  Claim C8, as stated, fails: a backquote in front of a dash shields the dash from the
  first pass, which removes the backquote; the second pass then removes the dash.
  The input is the line \<open>`-abcd\<close>.
\<close>

theorem cleanBullets_not_idempotent:
  "cleanBullets (cleanBullets (ascii ''`-abcd'') 8) 8 \<noteq> cleanBullets (ascii ''`-abcd'') 8"
  by code_simp

section \<open>Properties of the aggregator\<close>

lemma forEach_bullet_lines: "lines (forEach_bullet ms i bs st) = lines st @ bs"
  by (induction bs arbitrary: i st) simp_all

lemma for_entries_lines:
  "lines (for_entries srcs results st) = lines st @ concat (map (\<lambda>(model, text). bullets_of text) results)"
  by (induction results arbitrary: st) (auto simp: forEach_bullet_lines)

lemma aggregate_lines:
  "lines (aggregate results srcs) = concat (map (\<lambda>(model, text). bullets_of text) results)"
  by (simp add: aggregate_def for_entries_lines)

lemma foldl_set_add:
  "foldl set_add seen xs = seen @ filter (\<lambda>x. x \<notin> set seen) (first_occurrences xs)"
proof (induction xs arbitrary: seen)
  case Nil
  then show ?case by simp
next
  case (Cons x xs)
  show ?case
  proof (cases "x \<in> set seen")
    case True
    then have "filter (\<lambda>y. y \<notin> set seen) (removeAll x (first_occurrences xs))
        = filter (\<lambda>y. y \<notin> set seen) (first_occurrences xs)"
      by (auto simp: removeAll_filter_not_eq intro: filter_cong)
    with True Cons.IH [of seen] show ?thesis by (simp add: set_add_def)
  next
    case False
    have "filter (\<lambda>y. y \<notin> set (seen @ [x])) (first_occurrences xs)
        = filter (\<lambda>y. y \<notin> set seen) (removeAll x (first_occurrences xs))"
      by (auto simp: removeAll_filter_not_eq intro: filter_cong)
    with False Cons.IH [of "seen @ [x]"] show ?thesis by (simp add: set_add_def)
  qed
qed

lemma new_Set_first_occurrences: "new_Set xs = first_occurrences xs"
  by (simp add: new_Set_def foldl_set_add)

lemma set_first_occurrences: "set (first_occurrences xs) = set xs"
  by (induction xs) auto

lemma distinct_first_occurrences: "distinct (first_occurrences xs)"
  by (induction xs) (auto simp: distinct_removeAll)

lemma unique_first_five:
  "unique results srcs
     = take 5 (first_occurrences (concat (map (\<lambda>(model, text). bullets_of text) results))) \<and>
   length (unique results srcs) \<le> 5 \<and>
   distinct (unique results srcs) \<and>
   buildConclusion results srcs
     = join_nl (map (\<lambda>b. ascii ''- '' @ b
                  @ citation_suffix (get_citation (citationsMap (aggregate results srcs)) b))
         (unique results srcs)) \<and>
   ((\<forall>(model, text) \<in> set results. bullets_of text = []) \<longrightarrow> buildConclusion results srcs = [])"
proof (intro conjI impI)
  show u: "unique results srcs
     = take 5 (first_occurrences (concat (map (\<lambda>(model, text). bullets_of text) results)))"
    by (simp add: unique_def new_Set_first_occurrences aggregate_lines)
  show "length (unique results srcs) \<le> 5" by (simp add: unique_def)
  show "distinct (unique results srcs)"
    unfolding u by (rule distinct_take) (rule distinct_first_occurrences)
  show "buildConclusion results srcs
     = join_nl (map (\<lambda>b. ascii ''- '' @ b
                  @ citation_suffix (get_citation (citationsMap (aggregate results srcs)) b))
         (unique results srcs))"
    unfolding buildConclusion_def
    by (rule arg_cong [where f = join_nl], rule map_cong) (simp_all add: conclusion_line_def)
next
  assume "\<forall>(model, text) \<in> set results. bullets_of text = []"
  then have c: "concat (map (\<lambda>(model, text). bullets_of text) results) = []"
    by auto
  have "unique results srcs = []"
    unfolding unique_def new_Set_first_occurrences aggregate_lines c by simp
  then show "buildConclusion results srcs = []"
    by (simp add: buildConclusion_def)
qed

lemma forEach_bullet_citations:
  "citationsMap (forEach_bullet ms i bs st) =
     foldl (\<lambda>m (b, e). set_citation m b e) (citationsMap st)
       (case ms of None \<Rightarrow> [] | Some evs \<Rightarrow> zip bs (drop i evs))"
proof (induction bs arbitrary: i st)
  case Nil
  then show ?case by (simp split: option.splits)
next
  case (Cons b bs)
  show ?case
  proof (cases ms)
    case None
    with Cons.IH show ?thesis by simp
  next
    case (Some evs)
    show ?thesis
    proof (cases "i < length evs")
      case True
      then have "drop i evs = evs ! i # drop (Suc i) evs"
        by (simp add: Cons_nth_drop_Suc)
      with True Some Cons.IH show ?thesis by simp
    next
      case False
      with Some Cons.IH show ?thesis by simp
    qed
  qed
qed

lemma for_entries_citations:
  "citationsMap (for_entries srcs results st) =
     foldl (\<lambda>m (b, e). set_citation m b e) (citationsMap st) (citation_writes results srcs)"
proof (induction results arbitrary: st)
  case Nil
  then show ?case by (simp add: citation_writes_def)
next
  case (Cons r rs)
  obtain k t where r: "r = (k, t)" by (cases r)
  show ?case
    unfolding r by (simp add: Cons.IH forEach_bullet_citations citation_writes_def
        split: option.splits)
qed

lemma foldl_set_citation_own:
  assumes "b \<noteq> ascii ''__proto__''"
  shows "own (foldl (\<lambda>m (b, e). set_citation m b e) m ws) b =
     (case map_of (rev ws) b of Some e \<Rightarrow> Some e | None \<Rightarrow> own m b)"
proof (induction ws rule: rev_induct)
  case Nil
  then show ?case by simp
next
  case (snoc x ws)
  obtain k e where x: "x = (k, e)" by (cases x)
  show ?case
    using assms snoc.IH unfolding x by (simp add: set_citation_def)
qed

lemma foldl_set_citation_proto:
  assumes "ascii ''__proto__'' \<notin> fst ` set ws"
  shows "proto (foldl (\<lambda>m (b, e). set_citation m b e) m ws) = proto m"
  using assms
proof (induction ws rule: rev_induct)
  case Nil
  then show ?case by simp
next
  case (snoc x ws)
  obtain k e where x: "x = (k, e)" by (cases x)
  from snoc.prems have "k \<noteq> ascii ''__proto__''" and "ascii ''__proto__'' \<notin> fst ` set ws"
    unfolding x by auto
  with snoc.IH show ?case unfolding x by (simp add: set_citation_def)
qed

text \<open>
  The citation map behaves as a map with the last writer winning, for every bullet
  that is not the name of a property of \<open>Object.prototype\<close>, as long as no bullet
  \<open>__proto__\<close> has been given a citation.
\<close>

lemma citations_last_writer:
  assumes "ascii ''__proto__'' \<notin> fst ` set (citation_writes results srcs)"
    and "b \<notin> set object_prototype_keys"
  shows "get_citation (citationsMap (aggregate results srcs)) b =
     (case map_of (rev (citation_writes results srcs)) b of
        Some e \<Rightarrow> Cited e
      | None \<Rightarrow> Falsy)"
proof -
  let ?m = "citationsMap (aggregate results srcs)"
  have m: "?m = foldl (\<lambda>m (b, e). set_citation m b e) empty_object (citation_writes results srcs)"
    by (simp add: aggregate_def for_entries_citations)
  have "ascii ''__proto__'' \<in> set object_prototype_keys"
    by (simp add: object_prototype_keys_def)
  with assms(2) have b: "b \<noteq> ascii ''__proto__''" by auto
  have o: "own ?m b = map_of (rev (citation_writes results srcs)) b"
    unfolding m using foldl_set_citation_own [OF b, of empty_object "citation_writes results srcs"]
    by (simp add: empty_object_def split: option.splits)
  have p: "proto ?m = None"
    unfolding m using foldl_set_citation_proto [OF assms(1), of empty_object]
    by (simp add: empty_object_def)
  show ?thesis
    using assms(2) by (simp add: get_citation_def o p split: option.splits)
qed

lemma strip_dash_subset: "set (strip_dash l) \<subseteq> set l"
proof (cases l)
  case Nil
  then show ?thesis by (simp add: strip_dash_def)
next
  case (Cons c cs)
  have "set (dropWhile is_space cs) \<subseteq> set cs"
    by (auto dest: set_dropWhileD)
  with Cons show ?thesis by (auto simp: strip_dash_def)
qed

lemma bullets_of_no_nl:
  assumes "b \<in> set (bullets_of t)"
  shows "0x0A \<notin> set b"
proof -
  from assms obtain l where l: "l \<in> set (split_nl t)" and b: "b = trim (strip_dash l)"
    by (auto simp: bullets_of_def)
  have "set b \<subseteq> set l"
    unfolding b using trim_subset [of "strip_dash l"] strip_dash_subset [of l] by blast
  with split_nl_no_nl [OF l] show ?thesis by blast
qed

lemma unique_no_nl:
  assumes "b \<in> set (unique results srcs)"
  shows "0x0A \<notin> set b"
proof -
  from assms have "b \<in> set (first_occurrences (lines (aggregate results srcs)))"
    by (auto simp: unique_def new_Set_first_occurrences dest: in_set_takeD)
  then have "b \<in> set (concat (map (\<lambda>(model, text). bullets_of text) results))"
    by (simp add: set_first_occurrences aggregate_lines)
  then obtain r where "r \<in> set results" and "b \<in> set (bullets_of (snd r))"
    by (auto simp: case_prod_beta)
  then show ?thesis using bullets_of_no_nl by blast
qed

lemma foldl_set_citation_all:
  assumes "\<forall>(b, e) \<in> set ws. P e"
    and "\<forall>k x. own m k = Some x \<longrightarrow> P x"
    and "\<forall>x. proto m = Some x \<longrightarrow> P x"
  shows "(\<forall>k x. own (foldl (\<lambda>m (b, e). set_citation m b e) m ws) k = Some x \<longrightarrow> P x) \<and>
         (\<forall>x. proto (foldl (\<lambda>m (b, e). set_citation m b e) m ws) = Some x \<longrightarrow> P x)"
  using assms(1)
proof (induction ws rule: rev_induct)
  case Nil
  with assms(2,3) show ?case by simp
next
  case (snoc x ws)
  obtain k e where x: "x = (k, e)" by (cases x)
  from snoc.prems have e: "P e" and ws: "\<forall>(b, e) \<in> set ws. P e"
    unfolding x by auto
  from snoc.IH [OF ws] e show ?case
    unfolding x by (auto simp: set_citation_def)
qed

lemma get_citation_Cited:
  "get_citation m b = Cited e \<Longrightarrow> own m b = Some e \<or> proto m = Some e"
  by (auto simp: get_citation_def split: option.splits if_splits)

lemma aggregate_citations_all:
  assumes "\<forall>(b, e) \<in> set (citation_writes results srcs). P e"
    and "get_citation (citationsMap (aggregate results srcs)) b = Cited e"
  shows "P e"
proof -
  have m: "citationsMap (aggregate results srcs)
      = foldl (\<lambda>m (b, e). set_citation m b e) empty_object (citation_writes results srcs)"
    by (simp add: aggregate_def for_entries_citations)
  have "(\<forall>k x. own (citationsMap (aggregate results srcs)) k = Some x \<longrightarrow> P x) \<and>
        (\<forall>x. proto (citationsMap (aggregate results srcs)) = Some x \<longrightarrow> P x)"
    unfolding m by (rule foldl_set_citation_all [OF assms(1)]) (simp_all add: empty_object_def)
  with get_citation_Cited [OF assms(2)] show ?thesis by blast
qed

lemma citation_suffix_no_nl:
  assumes "\<And>e. c = Cited e \<Longrightarrow> one_line e"
  shows "0x0A \<notin> set (citation_suffix c)"
proof (cases c)
  case Falsy
  then show ?thesis by simp
next
  case (Cited e)
  with assms have "one_line e" by simp
  then show ?thesis
    unfolding Cited by (cases "truthy (date e)") (simp_all add: one_line_def js_or_def ascii_def)
next
  case Inherited
  then show ?thesis by (simp add: ascii_def)
qed

text \<open>
  Claim C1, as amended. When no evidence record attached to a bullet has a line
  break in its title, url or date, the lines of the conclusion are the retained
  texts, each behind the marker and before its citation: the first five first
  occurrences of the bullets of all providers, in provider order and then in the
  order within a provider. So there are at most five lines, and no two of them have
  the same text before the citation. When no provider text has a bullet, the
  conclusion is the empty string. The conclusion is a function of its two arguments.
\<close>

theorem buildConclusion_lines:
  assumes "\<forall>(b, e) \<in> set (citation_writes results srcs). one_line e"
  shows "output_lines (buildConclusion results srcs)
       = map (\<lambda>b. ascii ''- '' @ b
                @ citation_suffix (get_citation (citationsMap (aggregate results srcs)) b))
           (unique results srcs) \<and>
     unique results srcs
       = take 5 (first_occurrences (concat (map (\<lambda>(model, text). bullets_of text) results))) \<and>
     distinct (unique results srcs) \<and>
     length (output_lines (buildConclusion results srcs)) \<le> 5 \<and>
     ((\<forall>(model, text) \<in> set results. bullets_of text = []) \<longrightarrow> buildConclusion results srcs = [])"
proof -
  let ?m = "citationsMap (aggregate results srcs)"
  have line: "conclusion_line ?m b \<noteq> [] \<and> 0x0A \<notin> set (conclusion_line ?m b)"
    if "b \<in> set (unique results srcs)" for b
  proof -
    have "0x0A \<notin> set (citation_suffix (get_citation ?m b))"
      by (rule citation_suffix_no_nl) (rule aggregate_citations_all [OF assms])
    with unique_no_nl [OF that] show ?thesis
      by (simp add: conclusion_line_def ascii_def)
  qed
  have "output_lines (buildConclusion results srcs)
      = map (conclusion_line ?m) (unique results srcs)"
    unfolding buildConclusion_def by (rule output_lines_join) (use line in auto)
  then have ol: "output_lines (buildConclusion results srcs)
       = map (\<lambda>b. ascii ''- '' @ b @ citation_suffix (get_citation ?m b)) (unique results srcs)"
    by (simp add: conclusion_line_def [abs_def])
  from ol have "length (output_lines (buildConclusion results srcs)) \<le> 5"
    by (simp add: unique_def)
  with ol unique_first_five [of results srcs] show ?thesis by blast
qed

theorem buildConclusion_lines_witness:
  "output_lines (buildConclusion
      [(ascii ''openai'', ascii ''- Paris is the capital'' @ 0x0A # ascii ''- Lyon''),
       (ascii ''gemini'', ascii ''- Nice'' @ 0x0A # ascii ''- Paris is the capital'')]
      [ascii ''openai'' \<mapsto> [\<lparr>url = JStr (ascii ''https://a.example''), title = JStr (ascii ''A''),
          date = JUndefined, excerpt = ascii ''No content''\<rparr>]])
     = [ascii ''- Paris is the capital [A](https://a.example) (N/A)'', ascii ''- Lyon'',
        ascii ''- Nice''] \<and>
   length (output_lines (buildConclusion
      [(ascii ''openai'', ascii ''- Paris is the capital'' @ 0x0A # ascii ''- Lyon''),
       (ascii ''gemini'', ascii ''- Nice'' @ 0x0A # ascii ''- Paris is the capital'')]
      [ascii ''openai'' \<mapsto> [\<lparr>url = JStr (ascii ''https://a.example''), title = JStr (ascii ''A''),
          date = JUndefined, excerpt = ascii ''No content''\<rparr>]])) \<le> 5 \<and>
   bullets_of (ascii ''ab'') = [] \<and>
   buildConclusion [(ascii ''gemini'', ascii ''ab'')] Map.empty = []"
proof -
  let ?R = "[(ascii ''openai'', ascii ''- Paris is the capital'' @ 0x0A # ascii ''- Lyon''),
       (ascii ''gemini'', ascii ''- Nice'' @ 0x0A # ascii ''- Paris is the capital'')]"
  let ?S = "[ascii ''openai'' \<mapsto> [\<lparr>url = JStr (ascii ''https://a.example''), title = JStr (ascii ''A''),
          date = JUndefined, excerpt = ascii ''No content''\<rparr>]]"
  have h: "\<forall>(b, e) \<in> set (citation_writes ?R ?S). one_line e"
    by code_simp
  have u: "unique ?R ?S = [ascii ''Paris is the capital'', ascii ''Lyon'', ascii ''Nice'']"
    by code_simp
  have c: "map (\<lambda>b. ascii ''- '' @ b @ citation_suffix (get_citation (citationsMap (aggregate ?R ?S)) b))
             [ascii ''Paris is the capital'', ascii ''Lyon'', ascii ''Nice'']
      = [ascii ''- Paris is the capital [A](https://a.example) (N/A)'', ascii ''- Lyon'',
         ascii ''- Nice'']"
    by code_simp
  note t = buildConclusion_lines [OF h]
  from t have ol: "output_lines (buildConclusion ?R ?S)
      = [ascii ''- Paris is the capital [A](https://a.example) (N/A)'', ascii ''- Lyon'',
         ascii ''- Nice'']"
    unfolding u c by blast
  from t have le: "length (output_lines (buildConclusion ?R ?S)) \<le> 5" by blast
  have b: "bullets_of (ascii ''ab'') = []" by code_simp
  then have e: "\<forall>(model, text) \<in> set [(ascii ''gemini'', ascii ''ab'')]. bullets_of text = []"
    by simp
  have h0: "\<forall>(b, e) \<in> set (citation_writes [(ascii ''gemini'', ascii ''ab'')] Map.empty). one_line e"
    by (simp add: citation_writes_def)
  from buildConclusion_lines [OF h0] e
  have z: "buildConclusion [(ascii ''gemini'', ascii ''ab'')] Map.empty = []" by blast
  from ol le b z show ?thesis by blast
qed

text \<open>
  Claim C1, as stated, fails: the title of a citation is pasted into the line as it
  is, and a title with a line break in it makes two lines of one. Five bullets cited
  with such a title give a conclusion of ten lines, five of which are the same.
\<close>

theorem buildConclusion_title_line_break:
  "length (output_lines (buildConclusion
      [(ascii ''gemini'',
        ascii ''- aaaa'' @ 0x0A # ascii ''- bbbb'' @ 0x0A # ascii ''- cccc'' @ 0x0A #
        ascii ''- dddd'' @ 0x0A # ascii ''- eeee'')]
      [ascii ''gemini'' \<mapsto> replicate 5
         \<lparr>url = JStr (ascii ''https://a.example''), title = JStr (ascii ''T'' @ 0x0A # ascii ''U''),
          date = JUndefined, excerpt = ascii ''No content''\<rparr>])) = 10 \<and>
   \<not> distinct (output_lines (buildConclusion
      [(ascii ''gemini'',
        ascii ''- aaaa'' @ 0x0A # ascii ''- bbbb'' @ 0x0A # ascii ''- cccc'' @ 0x0A #
        ascii ''- dddd'' @ 0x0A # ascii ''- eeee'')]
      [ascii ''gemini'' \<mapsto> replicate 5
         \<lparr>url = JStr (ascii ''https://a.example''), title = JStr (ascii ''T'' @ 0x0A # ascii ''U''),
          date = JUndefined, excerpt = ascii ''No content''\<rparr>]))"
  by code_simp

text \<open>
  Claim C7 fails on a bullet that names a property every object inherits: no evidence
  is recorded for the bullet \<open>constructor\<close>, and yet \<open>citationsMap["constructor"]\<close>
  is truthy, so the line gets a suffix made of the missing fields of a function.
\<close>

theorem buildConclusion_inherited_property:
  "buildConclusion [(ascii ''gemini'', cleanBullets (ascii ''constructor'') 8)] Map.empty
     = ascii ''- constructor [undefined](undefined) (N/A)''"
  by code_simp

section \<open>Properties of the evidence retriever\<close>

lemma performWebSearch_malformed:
  "\<not> well_formed query \<Longrightarrow> performWebSearch w query = ([], [])"
  by (simp add: performWebSearch_def search_and_extract_def)

lemma performWebSearch_cases:
  "well_formed query \<Longrightarrow>
   performWebSearch w query =
     (case search_get w query of
        SearchFailed \<Rightarrow> ([], [SearchCall query])
      | SearchData organic \<Rightarrow>
          (List.map_filter (extract_page w) (take 5 (case organic of None \<Rightarrow> [] | Some rs \<Rightarrow> rs)),
           SearchCall query # map (\<lambda>res. PageCall (link res))
              (take 5 (case organic of None \<Rightarrow> [] | Some rs \<Rightarrow> rs))))"
  by (simp add: performWebSearch_def search_and_extract_def Let_def split: search_response.splits)

lemma performWebSearch_failed:
  "search_get w query = SearchFailed \<Longrightarrow> fst (performWebSearch w query) = []"
  by (cases "well_formed query") (simp_all add: performWebSearch_cases performWebSearch_malformed)

lemma length_map_filter_le: "length (List.map_filter f xs) \<le> length xs"
  by (induction xs) (auto simp: List.map_filter_simps split: option.splits)

text \<open>
  Claim C3. The retriever returns at most five evidence records, whatever the number
  of search results: it fetches the first five only (six calls at most, the search
  included). When the search call fails, and also when the query cannot be encoded
  into the search URL, the body of the retriever throws and the retriever returns
  the empty sequence.
\<close>

theorem performWebSearch_bounded:
  "length (fst (performWebSearch w query)) \<le> 5 \<and>
   length (snd (performWebSearch w query)) \<le> 6 \<and>
   (fst (search_and_extract w query) = Threw \<longrightarrow> fst (performWebSearch w query) = []) \<and>
   (search_get w query = SearchFailed \<longrightarrow>
      fst (search_and_extract w query) = Threw \<and> fst (performWebSearch w query) = []) \<and>
   (\<not> well_formed query \<longrightarrow>
      fst (search_and_extract w query) = Threw \<and> performWebSearch w query = ([], [])) \<and>
   (\<forall>rs. well_formed query \<and> search_get w query = SearchData (Some rs) \<longrightarrow>
      fst (performWebSearch w query) = List.map_filter (extract_page w) (take 5 rs) \<and>
      snd (performWebSearch w query) = SearchCall query # map (\<lambda>res. PageCall (link res)) (take 5 rs))"
proof (intro conjI impI allI)
  have five: "length (List.map_filter (extract_page w) (take 5 rs)) \<le> 5" for rs
    using length_map_filter_le [of "extract_page w" "take 5 rs"] by simp
  show "length (fst (performWebSearch w query)) \<le> 5"
  proof (cases "well_formed query")
    case True
    with five show ?thesis
      by (simp add: performWebSearch_cases split: search_response.splits)
  next
    case False
    then show ?thesis by (simp add: performWebSearch_malformed)
  qed
  show "length (snd (performWebSearch w query)) \<le> 6"
  proof (cases "well_formed query")
    case True
    then show ?thesis
      by (simp add: performWebSearch_cases split: search_response.splits)
  next
    case False
    then show ?thesis by (simp add: performWebSearch_malformed)
  qed
  show "fst (performWebSearch w query) = []" if "fst (search_and_extract w query) = Threw"
    using that by (cases "search_and_extract w query") (auto simp: performWebSearch_def)
  show "fst (search_and_extract w query) = Threw" if "search_get w query = SearchFailed"
    using that by (simp add: search_and_extract_def)
  show "fst (performWebSearch w query) = []" if "search_get w query = SearchFailed"
  proof (cases "well_formed query")
    case True
    with that show ?thesis by (simp add: performWebSearch_cases)
  next
    case False
    then show ?thesis by (simp add: performWebSearch_malformed)
  qed
  show "fst (search_and_extract w query) = Threw" if "\<not> well_formed query"
    using that by (simp add: search_and_extract_def)
  show "performWebSearch w query = ([], [])" if "\<not> well_formed query"
    using that by (rule performWebSearch_malformed)
  show "fst (performWebSearch w query) = List.map_filter (extract_page w) (take 5 rs)"
    if "well_formed query \<and> search_get w query = SearchData (Some rs)" for rs
    using that by (simp add: performWebSearch_cases)
  show "snd (performWebSearch w query) = SearchCall query # map (\<lambda>res. PageCall (link res)) (take 5 rs)"
    if "well_formed query \<and> search_get w query = SearchData (Some rs)" for rs
    using that by (simp add: performWebSearch_cases)
qed

theorem performWebSearch_bounded_witness:
  "well_formed (ascii ''capital of France'') \<and>
   \<not> well_formed [0xD83D] \<and>
   performWebSearch
          \<lparr>search_get = (\<lambda>q. SearchData (Some [
               \<lparr>link = JStr (ascii ''https://a.example''), res_title = JStr (ascii ''A''),
                res_date = JUndefined\<rparr>])),
           page_get = (\<lambda>l. PageParsed None),
           provider_post = (\<lambda>p q f. RequestFailed)\<rparr> [0xD83D] = ([], []) \<and>
   fst (performWebSearch
          \<lparr>search_get = (\<lambda>q. SearchFailed), page_get = (\<lambda>l. PageFailed),
           provider_post = (\<lambda>p q f. RequestFailed)\<rparr> (ascii ''capital of France'')) = [] \<and>
   length (fst (performWebSearch
          \<lparr>search_get = (\<lambda>q. SearchData (Some (replicate 20
               \<lparr>link = JStr (ascii ''https://a.example''), res_title = JStr (ascii ''A''),
                res_date = JUndefined\<rparr>))),
           page_get = (\<lambda>l. PageParsed None),
           provider_post = (\<lambda>p q f. RequestFailed)\<rparr> (ascii ''capital of France''))) = 5"
proof -
  let ?w0 = "\<lparr>search_get = (\<lambda>q. SearchFailed), page_get = (\<lambda>l. PageFailed),
           provider_post = (\<lambda>p q f. RequestFailed)\<rparr>"
  let ?r = "\<lparr>link = JStr (ascii ''https://a.example''), res_title = JStr (ascii ''A''),
                res_date = JUndefined\<rparr>"
  let ?w1 = "\<lparr>search_get = (\<lambda>q. SearchData (Some (replicate 20 ?r))),
           page_get = (\<lambda>l. PageParsed None),
           provider_post = (\<lambda>p q f. RequestFailed)\<rparr>"
  let ?w2 = "\<lparr>search_get = (\<lambda>q. SearchData (Some [?r])),
           page_get = (\<lambda>l. PageParsed None),
           provider_post = (\<lambda>p q f. RequestFailed)\<rparr>"
  have wf: "well_formed (ascii ''capital of France'')" by code_simp
  have nwf: "\<not> well_formed [0xD83D]" by (simp add: is_lead_def)
  from nwf performWebSearch_bounded [of ?w2 "[0xD83D]"]
  have m: "performWebSearch ?w2 [0xD83D] = ([], [])" by blast
  have "search_get ?w0 (ascii ''capital of France'') = SearchFailed" by simp
  with performWebSearch_bounded [of ?w0 "ascii ''capital of France''"]
  have a: "fst (performWebSearch ?w0 (ascii ''capital of France'')) = []" by blast
  have "search_get ?w1 (ascii ''capital of France'') = SearchData (Some (replicate 20 ?r))" by simp
  with wf performWebSearch_bounded [of ?w1 "ascii ''capital of France''"]
  have "fst (performWebSearch ?w1 (ascii ''capital of France''))
      = List.map_filter (extract_page ?w1) (take 5 (replicate 20 ?r))" by blast
  also have "length \<dots> = 5"
    by (simp add: List.map_filter_def extract_page_def)
  finally have b: "length (fst (performWebSearch ?w1 (ascii ''capital of France''))) = 5" .
  from wf nwf m a b show ?thesis by blast
qed

lemma str_or_cases:
  "str_or v d = (if truthy v then to_str v else d)"
  by (cases v) (auto simp: str_or_def js_or_def)

text \<open>
  Claim C5, as amended. For every page that survives: the title is the article's
  title when that is available, else the title of the search result when that is
  available; the date is the date of the search result when available, else the
  article's published time when available, else \<open>"N/A"\<close>; the excerpt is the
  article's excerpt, else the first 1000 characters of its text, else
  \<open>"No content"\<close>, which it is in particular when the extraction gave no article.
\<close>

theorem extract_page_fields:
  assumes "extract_page w res = Some e"
  shows "\<exists>a. page_get w (link res) = PageParsed a \<and>
     url e = link res \<and>
     (truthy (opt_field a art_title) \<longrightarrow> title e = opt_field a art_title) \<and>
     (\<not> truthy (opt_field a art_title) \<and> truthy (res_title res) \<longrightarrow> title e = res_title res) \<and>
     date e = (if truthy (res_date res) then res_date res
               else if truthy (opt_field a publishedTime) then opt_field a publishedTime
               else JStr (ascii ''N/A'')) \<and>
     excerpt e = (if truthy (opt_field a art_excerpt) then to_str (opt_field a art_excerpt)
                  else if truthy (opt_field a textContent) then take 1000 (to_str (opt_field a textContent))
                  else ascii ''No content'') \<and>
     (a = None \<longrightarrow> excerpt e = ascii ''No content'')"
proof -
  from assms obtain a where a: "page_get w (link res) = PageParsed a" and e: "e = make_evidence res a"
    by (auto simp: extract_page_def split: page_response.splits)
  have t: "truthy (substring0 v 1000) \<Longrightarrow> truthy v" for v by (cases v) auto
  have s: "truthy v \<Longrightarrow> substring0 v 1000 = JStr (take 1000 (to_str v))" for v by (cases v) auto
  have ex: "excerpt e = (if truthy (opt_field a art_excerpt) then to_str (opt_field a art_excerpt)
                  else if truthy (opt_field a textContent) then take 1000 (to_str (opt_field a textContent))
                  else ascii ''No content'')"
  proof (cases "truthy (opt_field a art_excerpt)")
    case True
    then show ?thesis by (simp add: e make_evidence_def str_or_cases js_or_def)
  next
    case False
    note nex = this
    show ?thesis
    proof (cases "truthy (opt_field a textContent)")
      case True
      moreover from True have "truthy (substring0 (opt_field a textContent) 1000)"
        by (cases "opt_field a textContent") auto
      ultimately show ?thesis using nex
        by (simp add: e make_evidence_def str_or_cases js_or_def s)
    next
      case False
      with nex t [of "opt_field a textContent"] show ?thesis
        by (auto simp: e make_evidence_def str_or_cases js_or_def)
    qed
  qed
  show ?thesis
  proof (intro exI [of _ a] conjI impI)
    show "page_get w (link res) = PageParsed a" by (rule a)
    show "url e = link res" by (simp add: e make_evidence_def)
    show "title e = opt_field a art_title" if "truthy (opt_field a art_title)"
      using that by (simp add: e make_evidence_def js_or_def)
    show "title e = res_title res" if "\<not> truthy (opt_field a art_title) \<and> truthy (res_title res)"
      using that by (simp add: e make_evidence_def js_or_def)
    show "date e = (if truthy (res_date res) then res_date res
               else if truthy (opt_field a publishedTime) then opt_field a publishedTime
               else JStr (ascii ''N/A''))"
      by (simp add: e make_evidence_def js_or_def)
    show "excerpt e = (if truthy (opt_field a art_excerpt) then to_str (opt_field a art_excerpt)
                  else if truthy (opt_field a textContent) then take 1000 (to_str (opt_field a textContent))
                  else ascii ''No content'')"
      by (rule ex)
    show "excerpt e = ascii ''No content''" if "a = None"
      using that ex by (simp add: opt_field_def)
  qed
qed

theorem extract_page_fields_witness:
  "extract_page
     \<lparr>search_get = (\<lambda>q. SearchFailed),
      page_get = (\<lambda>l. PageParsed (Some \<lparr>art_title = JStr (ascii ''Paris''), art_excerpt = JNull,
                   textContent = JStr (ascii ''Paris is the capital of France.''),
                   publishedTime = JStr (ascii ''2020-05-05'')\<rparr>)),
      provider_post = (\<lambda>p q f. RequestFailed)\<rparr>
     \<lparr>link = JStr (ascii ''https://a.example''), res_title = JStr (ascii ''A''),
      res_date = JUndefined\<rparr>
   = Some \<lparr>url = JStr (ascii ''https://a.example''), title = JStr (ascii ''Paris''),
           date = JStr (ascii ''2020-05-05''),
           excerpt = ascii ''Paris is the capital of France.''\<rparr> \<and>
   date \<lparr>url = JStr (ascii ''https://a.example''), title = JStr (ascii ''Paris''),
           date = JStr (ascii ''2020-05-05''),
           excerpt = ascii ''Paris is the capital of France.''\<rparr> = JStr (ascii ''2020-05-05'')"
proof -
  let ?a = "\<lparr>art_title = JStr (ascii ''Paris''), art_excerpt = JNull,
                   textContent = JStr (ascii ''Paris is the capital of France.''),
                   publishedTime = JStr (ascii ''2020-05-05'')\<rparr>"
  let ?w = "\<lparr>search_get = (\<lambda>q. SearchFailed), page_get = (\<lambda>l. PageParsed (Some ?a)),
      provider_post = (\<lambda>p q f. RequestFailed)\<rparr>"
  let ?r = "\<lparr>link = JStr (ascii ''https://a.example''), res_title = JStr (ascii ''A''),
      res_date = JUndefined\<rparr>"
  let ?e = "\<lparr>url = JStr (ascii ''https://a.example''), title = JStr (ascii ''Paris''),
           date = JStr (ascii ''2020-05-05''),
           excerpt = ascii ''Paris is the capital of France.''\<rparr>"
  have h: "extract_page ?w ?r = Some ?e"
    by (simp add: extract_page_def make_evidence_def opt_field_def js_or_def str_or_def ascii_def)
  from extract_page_fields [OF h] have "date ?e = JStr (ascii ''2020-05-05'')"
    by (auto simp: opt_field_def)
  with h show ?thesis by blast
qed

text \<open>
  Claim C5, as stated, fails: the date of the search result comes before the
  article's published time, and a title missing on both sides stays missing.
\<close>

theorem make_evidence_search_date_first:
  "truthy (opt_field (Some \<lparr>art_title = JUndefined, art_excerpt = JUndefined,
              textContent = JUndefined, publishedTime = JStr (ascii ''2020-05-05'')\<rparr>) publishedTime) \<and>
   date (make_evidence
          \<lparr>link = JStr (ascii ''https://a.example''), res_title = JUndefined,
           res_date = JStr (ascii ''2024-01-01'')\<rparr>
          (Some \<lparr>art_title = JUndefined, art_excerpt = JUndefined,
              textContent = JUndefined, publishedTime = JStr (ascii ''2020-05-05'')\<rparr>))
     = JStr (ascii ''2024-01-01'') \<and>
   JStr (ascii ''2024-01-01'') \<noteq> JStr (ascii ''2020-05-05'') \<and>
   title (make_evidence
          \<lparr>link = JStr (ascii ''https://a.example''), res_title = JUndefined,
           res_date = JStr (ascii ''2024-01-01'')\<rparr>
          (Some \<lparr>art_title = JUndefined, art_excerpt = JUndefined,
              textContent = JUndefined, publishedTime = JStr (ascii ''2020-05-05'')\<rparr>))
     = JUndefined"
  by (simp add: make_evidence_def opt_field_def js_or_def ascii_def)

section \<open>Properties of the request handler\<close>

lemma performWebSearch_starts:
  "well_formed query \<Longrightarrow> \<exists>rest. snd (performWebSearch w query) = SearchCall query # rest"
  by (simp add: performWebSearch_cases split: search_response.splits)

lemma well_formed_default_query: "well_formed (ascii ''Describe the uploaded file.'')"
  by code_simp

lemma file_flow_calls:
  "snd (file_flow w q f) =
     (let fileQuery = (if q \<noteq> [] then q else ascii ''Describe the uploaded file.'')
      in snd (performWebSearch w fileQuery)
           @ [ProviderCall Gemini
                (bulletPrompt fileQuery (context_of (fst (performWebSearch w fileQuery))) 8 True)
                (Some f)])"
  by (cases "provider_post w Gemini
        (bulletPrompt (if q \<noteq> [] then q else ascii ''Describe the uploaded file.'')
           (context_of (fst (performWebSearch w (if q \<noteq> [] then q else ascii ''Describe the uploaded file.'')))) 8 True)
        (Some f)")
     (auto simp: file_flow_def safeCall_def file_request_def Let_def
        split: prod.splits attempt.splits jsval.splits)

text \<open>
  Claim C6. When no file is uploaded and the question is empty (as it is after
  trimming), the response has status 400 and the message "Question cannot be empty",
  and no external call at all has been made: no search, no page fetch, no provider.
\<close>

theorem ask_empty_question:
  assumes "req_file req = None" and "question_of req = []"
  shows "ask w req = (\<lparr>status = 400, body = ErrorBody (ascii ''Question cannot be empty'')\<rparr>, [])"
  using assms by (simp add: ask_def)

theorem ask_empty_question_witness:
  "req_file \<lparr>question = JStr [], req_file = None\<rparr> = None \<and>
   question_of \<lparr>question = JStr [], req_file = None\<rparr> = [] \<and>
   ask \<lparr>search_get = (\<lambda>q. SearchFailed), page_get = (\<lambda>l. PageFailed),
        provider_post = (\<lambda>p q f. RequestFailed)\<rparr>
       \<lparr>question = JStr [], req_file = None\<rparr>
     = (\<lparr>status = 400, body = ErrorBody (ascii ''Question cannot be empty'')\<rparr>, [])"
proof -
  have f: "req_file \<lparr>question = JStr [], req_file = None\<rparr> = None" by simp
  have q: "question_of \<lparr>question = JStr [], req_file = None\<rparr> = []"
    by (simp add: question_of_def trim_def)
  from f q ask_empty_question [OF f q] show ?thesis by blast
qed

text \<open>
  Claim C10. A question made of white space only is trimmed to the empty string
  before the mode is chosen, and the request is answered exactly as the one without
  a question: without a file it is rejected with "Question cannot be empty"; with a
  file, the search and the prompt of the one provider call both use the query
  "Describe the uploaded file.".
\<close>

theorem ask_whitespace_question:
  assumes "\<forall>c \<in> set s. is_space c"
  shows "question_of \<lparr>question = JStr s, req_file = f\<rparr> = [] \<and>
     ask w \<lparr>question = JStr s, req_file = f\<rparr> = ask w \<lparr>question = JUndefined, req_file = f\<rparr> \<and>
     ask w \<lparr>question = JStr s, req_file = None\<rparr>
       = (\<lparr>status = 400, body = ErrorBody (ascii ''Question cannot be empty'')\<rparr>, []) \<and>
     (\<forall>u. snd (ask w \<lparr>question = JStr s, req_file = Some u\<rparr>)
            = snd (performWebSearch w (ascii ''Describe the uploaded file.''))
              @ [ProviderCall Gemini
                   (bulletPrompt (ascii ''Describe the uploaded file.'')
                      (context_of (fst (performWebSearch w (ascii ''Describe the uploaded file.''))))
                      8 True)
                   (Some u)]) \<and>
     (\<exists>rest. snd (performWebSearch w (ascii ''Describe the uploaded file.''))
        = SearchCall (ascii ''Describe the uploaded file.'') # rest)"
proof -
  from assms have t: "trim s = []" by (rule trim_all_space)
  then have q: "question_of \<lparr>question = JStr s, req_file = f\<rparr> = []" for f
    by (simp add: question_of_def)
  have q0: "question_of \<lparr>question = JUndefined, req_file = f\<rparr> = []" for f
    by (simp add: question_of_def)
  have "ask w \<lparr>question = JStr s, req_file = f\<rparr> = ask w \<lparr>question = JUndefined, req_file = f\<rparr>"
    by (simp add: ask_def q q0)
  moreover have "ask w \<lparr>question = JStr s, req_file = None\<rparr>
       = (\<lparr>status = 400, body = ErrorBody (ascii ''Question cannot be empty'')\<rparr>, [])"
    by (simp add: ask_def q)
  moreover have "snd (ask w \<lparr>question = JStr s, req_file = Some u\<rparr>)
            = snd (performWebSearch w (ascii ''Describe the uploaded file.''))
              @ [ProviderCall Gemini
                   (bulletPrompt (ascii ''Describe the uploaded file.'')
                      (context_of (fst (performWebSearch w (ascii ''Describe the uploaded file.''))))
                      8 True)
                   (Some u)]" for u
    by (simp add: ask_def q file_flow_calls Let_def)
  ultimately show ?thesis
    using q performWebSearch_starts [OF well_formed_default_query] by blast
qed


theorem ask_whitespace_question_witness:
  "is_space 0x20 \<and> is_space 0x09 \<and>
   ask \<lparr>search_get = (\<lambda>q. SearchFailed), page_get = (\<lambda>l. PageFailed),
        provider_post = (\<lambda>p q f. RequestFailed)\<rparr>
       \<lparr>question = JStr [0x20, 0x09], req_file = None\<rparr>
     = (\<lparr>status = 400, body = ErrorBody (ascii ''Question cannot be empty'')\<rparr>, []) \<and>
   snd (ask \<lparr>search_get = (\<lambda>q. SearchFailed), page_get = (\<lambda>l. PageFailed),
             provider_post = (\<lambda>p q f. RequestFailed)\<rparr>
            \<lparr>question = JStr [0x20, 0x09],
             req_file = Some \<lparr>buffer = [0x25, 0x50, 0x44, 0x46], mimetype = ascii ''application/pdf''\<rparr>\<rparr>)
     = [SearchCall (ascii ''Describe the uploaded file.''),
        ProviderCall Gemini (bulletPrompt (ascii ''Describe the uploaded file.'') [] 8 True)
          (Some \<lparr>buffer = [0x25, 0x50, 0x44, 0x46], mimetype = ascii ''application/pdf''\<rparr>)]"
proof -
  let ?w = "\<lparr>search_get = (\<lambda>q. SearchFailed), page_get = (\<lambda>l. PageFailed),
        provider_post = (\<lambda>p q f. RequestFailed)\<rparr>"
  have sp: "is_space 0x20" "is_space 0x09" by (simp_all add: is_space_def)
  then have h: "\<forall>c \<in> set [0x20, 0x09]. is_space c" by simp
  have p: "performWebSearch ?w (ascii ''Describe the uploaded file.'')
      = ([], [SearchCall (ascii ''Describe the uploaded file.'')])"
    using performWebSearch_cases [OF well_formed_default_query, of ?w] by simp
  have c: "context_of [] = []" by (simp add: context_of_def)
  note t = ask_whitespace_question [OF h, of None ?w]
  from t have a: "ask ?w \<lparr>question = JStr [0x20, 0x09], req_file = None\<rparr>
     = (\<lparr>status = 400, body = ErrorBody (ascii ''Question cannot be empty'')\<rparr>, [])"
    by blast
  from t have "snd (ask ?w \<lparr>question = JStr [0x20, 0x09],
             req_file = Some \<lparr>buffer = [0x25, 0x50, 0x44, 0x46], mimetype = ascii ''application/pdf''\<rparr>\<rparr>)
     = snd (performWebSearch ?w (ascii ''Describe the uploaded file.''))
              @ [ProviderCall Gemini
                   (bulletPrompt (ascii ''Describe the uploaded file.'')
                      (context_of (fst (performWebSearch ?w (ascii ''Describe the uploaded file.''))))
                      8 True)
                   (Some \<lparr>buffer = [0x25, 0x50, 0x44, 0x46], mimetype = ascii ''application/pdf''\<rparr>)]"
    by blast
  then have b: "snd (ask ?w \<lparr>question = JStr [0x20, 0x09],
             req_file = Some \<lparr>buffer = [0x25, 0x50, 0x44, 0x46], mimetype = ascii ''application/pdf''\<rparr>\<rparr>)
     = [SearchCall (ascii ''Describe the uploaded file.''),
        ProviderCall Gemini (bulletPrompt (ascii ''Describe the uploaded file.'') [] 8 True)
          (Some \<lparr>buffer = [0x25, 0x50, 0x44, 0x46], mimetype = ascii ''application/pdf''\<rparr>)]"
    unfolding p by (simp add: c)
  from sp a b show ?thesis by blast
qed

lemma cleanBullets_hd: "cleanBullets raw mb = [] \<or> hd (cleanBullets raw mb) = 0x2D"
proof (cases "kept_lines raw mb")
  case Nil
  then show ?thesis by (simp add: cleanBullets_def)
next
  case (Cons k ks)
  then show ?thesis by (cases ks) (simp_all add: cleanBullets_def ascii_def)
qed

lemma provider_fallback_hd: "provider_fallback p \<noteq> [] \<and> hd (provider_fallback p) = 0x45"
  by (simp add: provider_fallback_def ascii_def)

lemma cleanBullets_not_fallback: "cleanBullets raw mb \<noteq> provider_fallback p"
proof
  assume "cleanBullets raw mb = provider_fallback p"
  with cleanBullets_hd [of raw mb] provider_fallback_hd [of p] show False by auto
qed

lemma ask_provider_result:
  "fst (ask_provider w p prompt ws st) =
     (case provider_post w p prompt None of
        Replied (Some (JStr raw)) \<Rightarrow> cleanBullets raw 8
      | _ \<Rightarrow> provider_fallback p)"
  by (auto simp: ask_provider_def safeCall_def text_request_def Let_def
      split: provider_response.splits option.splits jsval.splits)

lemma text_flow_results:
  "\<exists>conclusion. fst (text_flow w q) =
     \<lparr>status = 200,
      body = AnswerBody
        (map (\<lambda>p. (provider_key p,
                 case provider_post w p
                        (bulletPrompt q (context_of (fst (performWebSearch w q))) 8 True) None of
                   Replied (Some (JStr raw)) \<Rightarrow> cleanBullets raw 8
                 | _ \<Rightarrow> provider_fallback p))
           [OpenAI, Mistral, Claude, Gemini])
        conclusion (fst (performWebSearch w q))\<rparr>"
  by (simp add: text_flow_def Let_def case_prod_beta ask_provider_result provider_key_def)

lemma ask_provider_sources:
  "sources (snd (ask_provider w p prompt ws st)) =
     (case provider_post w p prompt None of
        RequestFailed \<Rightarrow> sources st
      | Replied found \<Rightarrow> (sources st)(provider_key p \<mapsto> ws))"
  by (auto simp: ask_provider_def safeCall_def text_request_def Let_def
      split: provider_response.splits option.splits jsval.splits)

lemma text_flow_response:
  "fst (text_flow w q) =
     (let webSources = fst (performWebSearch w q);
          prompt = bulletPrompt q (context_of webSources) 8 True;
          results = map (\<lambda>p. (provider_key p,
                     case provider_post w p prompt None of
                       Replied (Some (JStr raw)) \<Rightarrow> cleanBullets raw 8
                     | _ \<Rightarrow> provider_fallback p))
               [OpenAI, Mistral, Claude, Gemini];
          srcs = foldl (\<lambda>m p. case provider_post w p prompt None of
                                 RequestFailed \<Rightarrow> m
                               | Replied found \<Rightarrow> m(provider_key p \<mapsto> webSources))
                   Map.empty [OpenAI, Mistral, Claude, Gemini]
      in \<lparr>status = 200, body = AnswerBody results (buildConclusion results srcs) webSources\<rparr>)"
proof -
  define ws where "ws = fst (performWebSearch w q)"
  define prompt where "prompt = bulletPrompt q (context_of ws) 8 True"
  define upd where "upd = (\<lambda>m p. case provider_post w p prompt None of
                                 RequestFailed \<Rightarrow> m
                               | Replied found \<Rightarrow> m(provider_key p \<mapsto> ws))"
  define st0 where "st0 = \<lparr>sources = Map.empty, calls = snd (performWebSearch w q)\<rparr>"
  define st1 where "st1 = snd (ask_provider w OpenAI prompt ws st0)"
  define st2 where "st2 = snd (ask_provider w Mistral prompt ws st1)"
  define st3 where "st3 = snd (ask_provider w Claude prompt ws st2)"
  define st4 where "st4 = snd (ask_provider w Gemini prompt ws st3)"
  have s0: "sources st0 = Map.empty"
    by (simp add: st0_def)
  have s1: "sources st1 = upd (sources st0) OpenAI"
    by (simp add: st1_def upd_def ask_provider_sources)
  have s2: "sources st2 = upd (sources st1) Mistral"
    by (simp add: st2_def upd_def ask_provider_sources)
  have s3: "sources st3 = upd (sources st2) Claude"
    by (simp add: st3_def upd_def ask_provider_sources)
  have s4: "sources st4 = upd (sources st3) Gemini"
    by (simp add: st4_def upd_def ask_provider_sources)
  have s: "sources st4 = foldl upd Map.empty [OpenAI, Mistral, Claude, Gemini]"
    by (simp add: s0 s1 s2 s3 s4)
  have "fst (text_flow w q) =
      \<lparr>status = 200,
       body = AnswerBody
         [(ascii ''openai'', fst (ask_provider w OpenAI prompt ws st0)),
          (ascii ''mistral'', fst (ask_provider w Mistral prompt ws st1)),
          (ascii ''claude'', fst (ask_provider w Claude prompt ws st2)),
          (ascii ''gemini'', fst (ask_provider w Gemini prompt ws st3))]
         (buildConclusion
            [(ascii ''openai'', fst (ask_provider w OpenAI prompt ws st0)),
             (ascii ''mistral'', fst (ask_provider w Mistral prompt ws st1)),
             (ascii ''claude'', fst (ask_provider w Claude prompt ws st2)),
             (ascii ''gemini'', fst (ask_provider w Gemini prompt ws st3))]
            (sources st4))
         ws\<rparr>"
    unfolding text_flow_def Let_def case_prod_beta st4_def st3_def st2_def st1_def st0_def
      prompt_def ws_def by simp
  then show ?thesis
    unfolding s ask_provider_result Let_def upd_def prompt_def ws_def
    by (simp add: provider_key_def)
qed

text \<open>
  Claim C2. When the function handed to the invoker throws, the invoker returns the
  fallback string. A normalized text is never a fallback string. So in the text flow
  the response has status 200, and its results hold, for each of the four providers,
  the normalized text of what the provider generated, and the fallback string exactly
  when the exchange failed or delivered no text.
\<close>

theorem provider_isolation:
  "(fst (fn st) = Threw \<longrightarrow> fst (safeCall fn fallback name maxBullets st) = fallback) \<and>
   cleanBullets raw maxBullets \<noteq> provider_fallback p \<and>
   (req_file req = None \<and> question_of req \<noteq> [] \<longrightarrow>
      (\<exists>conclusion. fst (ask w req) =
         \<lparr>status = 200,
          body = AnswerBody
            (map (\<lambda>p. (provider_key p,
                     case provider_post w p
                            (bulletPrompt (question_of req)
                               (context_of (fst (performWebSearch w (question_of req)))) 8 True)
                            None of
                       Replied (Some (JStr raw)) \<Rightarrow> cleanBullets raw 8
                     | _ \<Rightarrow> provider_fallback p))
               [OpenAI, Mistral, Claude, Gemini])
            conclusion (fst (performWebSearch w (question_of req)))\<rparr>))"
proof (intro conjI impI)
  show "fst (safeCall fn fallback name maxBullets st) = fallback" if "fst (fn st) = Threw"
    using that by (cases "fn st") (simp add: safeCall_def)
  show "cleanBullets raw maxBullets \<noteq> provider_fallback p"
    by (rule cleanBullets_not_fallback)
next
  assume "req_file req = None \<and> question_of req \<noteq> []"
  then have "ask w req = text_flow w (question_of req)"
    by (simp add: ask_def)
  then show "\<exists>conclusion. fst (ask w req) =
         \<lparr>status = 200,
          body = AnswerBody
            (map (\<lambda>p. (provider_key p,
                     case provider_post w p
                            (bulletPrompt (question_of req)
                               (context_of (fst (performWebSearch w (question_of req)))) 8 True)
                            None of
                       Replied (Some (JStr raw)) \<Rightarrow> cleanBullets raw 8
                     | _ \<Rightarrow> provider_fallback p))
               [OpenAI, Mistral, Claude, Gemini])
            conclusion (fst (performWebSearch w (question_of req)))\<rparr>"
    using text_flow_results [of w "question_of req"] by simp
qed

theorem provider_isolation_witness:
  "fst (text_request
          \<lparr>search_get = (\<lambda>q. SearchFailed), page_get = (\<lambda>l. PageFailed),
           provider_post = (\<lambda>p q f. if p = Mistral then RequestFailed
                              else Replied (Some (JStr (ascii ''* Paris is the capital of France''))))\<rparr>
          Mistral [] [] \<lparr>sources = Map.empty, calls = []\<rparr>) = Threw \<and>
   fst (safeCall
         (text_request
            \<lparr>search_get = (\<lambda>q. SearchFailed), page_get = (\<lambda>l. PageFailed),
             provider_post = (\<lambda>p q f. if p = Mistral then RequestFailed
                                else Replied (Some (JStr (ascii ''* Paris is the capital of France''))))\<rparr>
            Mistral [] [])
         (ascii ''Error from Mistral'') (ascii ''Mistral'') 8 \<lparr>sources = Map.empty, calls = []\<rparr>)
     = ascii ''Error from Mistral'' \<and>
   (\<exists>conclusion.
      fst (ask
            \<lparr>search_get = (\<lambda>q. SearchFailed), page_get = (\<lambda>l. PageFailed),
             provider_post = (\<lambda>p q f. if p = Mistral then RequestFailed
                                else Replied (Some (JStr (ascii ''* Paris is the capital of France''))))\<rparr>
            \<lparr>question = JStr (ascii ''capital of France?''), req_file = None\<rparr>)
      = \<lparr>status = 200,
         body = AnswerBody
           [(ascii ''openai'', ascii ''- Paris is the capital of France''),
            (ascii ''mistral'', ascii ''Error from Mistral''),
            (ascii ''claude'', ascii ''- Paris is the capital of France''),
            (ascii ''gemini'', ascii ''- Paris is the capital of France'')]
           conclusion []\<rparr>)"
proof -
  let ?w = "\<lparr>search_get = (\<lambda>q. SearchFailed), page_get = (\<lambda>l. PageFailed),
           provider_post = (\<lambda>p q f. if p = Mistral then RequestFailed
                              else Replied (Some (JStr (ascii ''* Paris is the capital of France''))))\<rparr>"
  let ?req = "\<lparr>question = JStr (ascii ''capital of France?''), req_file = None\<rparr>"
  let ?fn = "text_request ?w Mistral [] []"
  let ?st = "\<lparr>sources = Map.empty, calls = []\<rparr>"
  note t = provider_isolation [where w = ?w and req = ?req and fn = ?fn and st = ?st
      and fallback = "ascii ''Error from Mistral''" and name = "ascii ''Mistral''" and maxBullets = 8]
  have th: "fst (?fn ?st) = Threw"
    by (simp add: text_request_def)
  with t have a: "fst (safeCall ?fn (ascii ''Error from Mistral'') (ascii ''Mistral'') 8 ?st)
      = ascii ''Error from Mistral''"
    by blast
  have f: "req_file ?req = None" by simp
  have q: "question_of ?req = ascii ''capital of France?''" by code_simp
  then have qn: "question_of ?req \<noteq> []" by (simp add: ascii_def)
  have cb: "cleanBullets (ascii ''* Paris is the capital of France'') 8
      = ascii ''- Paris is the capital of France''"
    by code_simp
  have fb: "provider_fallback Mistral = ascii ''Error from Mistral''"
    by (simp add: provider_fallback_def provider_name_def ascii_def)
  have pw: "fst (performWebSearch ?w (question_of ?req)) = []"
    by (simp add: performWebSearch_failed)
  from t f qn obtain conclusion where "fst (ask ?w ?req) =
         \<lparr>status = 200,
          body = AnswerBody
            (map (\<lambda>p. (provider_key p,
                     case provider_post ?w p
                            (bulletPrompt (question_of ?req)
                               (context_of (fst (performWebSearch ?w (question_of ?req)))) 8 True)
                            None of
                       Replied (Some (JStr raw)) \<Rightarrow> cleanBullets raw 8
                     | _ \<Rightarrow> provider_fallback p))
               [OpenAI, Mistral, Claude, Gemini])
            conclusion (fst (performWebSearch ?w (question_of ?req)))\<rparr>"
    by blast
  then have "fst (ask ?w ?req) =
      \<lparr>status = 200,
         body = AnswerBody
           [(ascii ''openai'', ascii ''- Paris is the capital of France''),
            (ascii ''mistral'', ascii ''Error from Mistral''),
            (ascii ''claude'', ascii ''- Paris is the capital of France''),
            (ascii ''gemini'', ascii ''- Paris is the capital of France'')]
           conclusion []\<rparr>"
    unfolding pw by (simp add: cb fb provider_key_def)
  with th a show ?thesis by blast
qed

text \<open>
  Claim C9 fails when a provider answers with a body that lacks the generated text:
  \<open>sources.openai\<close> is assigned before the body is read, reading the body throws,
  and the fallback line, being the first bullet of its provider, is given the first
  evidence record as its citation.
\<close>

theorem ask_fallback_with_citation:
  "fst (ask
         \<lparr>search_get = (\<lambda>q. SearchData (Some
             [\<lparr>link = JStr (ascii ''https://a.example''), res_title = JStr (ascii ''A''),
               res_date = JUndefined\<rparr>])),
          page_get = (\<lambda>l. PageParsed None),
          provider_post = (\<lambda>p q f. if p = OpenAI then Replied None
                             else Replied (Some (JStr (ascii ''* Paris is the capital of France''))))\<rparr>
         \<lparr>question = JStr (ascii ''capital of France?''), req_file = None\<rparr>)
   = \<lparr>status = 200,
      body = AnswerBody
        [(ascii ''openai'', ascii ''Error from OpenAI''),
         (ascii ''mistral'', ascii ''- Paris is the capital of France''),
         (ascii ''claude'', ascii ''- Paris is the capital of France''),
         (ascii ''gemini'', ascii ''- Paris is the capital of France'')]
        (ascii ''- Error from OpenAI [A](https://a.example) (N/A)'' @ 0x0A #
         ascii ''- Paris is the capital of France [A](https://a.example) (N/A)'')
        [\<lparr>url = JStr (ascii ''https://a.example''), title = JStr (ascii ''A''),
          date = JStr (ascii ''N/A''), excerpt = ascii ''No content''\<rparr>]\<rparr>"
proof -
  let ?e = "\<lparr>url = JStr (ascii ''https://a.example''), title = JStr (ascii ''A''),
          date = JStr (ascii ''N/A''), excerpt = ascii ''No content''\<rparr>"
  let ?w = "\<lparr>search_get = (\<lambda>q. SearchData (Some
             [\<lparr>link = JStr (ascii ''https://a.example''), res_title = JStr (ascii ''A''),
               res_date = JUndefined\<rparr>])),
          page_get = (\<lambda>l. PageParsed None),
          provider_post = (\<lambda>p q f. if p = OpenAI then Replied None
                             else Replied (Some (JStr (ascii ''* Paris is the capital of France''))))\<rparr>"
  let ?req = "\<lparr>question = JStr (ascii ''capital of France?''), req_file = None\<rparr>"
  have q: "question_of ?req = ascii ''capital of France?''" by code_simp
  then have qn: "question_of ?req \<noteq> []" by (simp add: ascii_def)
  have a: "ask ?w ?req = text_flow ?w (ascii ''capital of France?'')"
    using qn by (simp add: ask_def q)
  have wf: "well_formed (ascii ''capital of France?'')" by code_simp
  have p: "fst (performWebSearch ?w (ascii ''capital of France?'')) = [?e]"
    using performWebSearch_cases [OF wf, of ?w]
    by (simp add: List.map_filter_def extract_page_def make_evidence_def
        opt_field_def js_or_def str_or_def)
  have cb: "cleanBullets (ascii ''* Paris is the capital of France'') 8
      = ascii ''- Paris is the capital of France''"
    by code_simp
  have fb: "provider_fallback OpenAI = ascii ''Error from OpenAI''"
    by (simp add: provider_fallback_def provider_name_def ascii_def)
  have c: "buildConclusion
        [(ascii ''openai'', ascii ''Error from OpenAI''),
         (ascii ''mistral'', ascii ''- Paris is the capital of France''),
         (ascii ''claude'', ascii ''- Paris is the capital of France''),
         (ascii ''gemini'', ascii ''- Paris is the capital of France'')]
        [ascii ''openai'' \<mapsto> [?e], ascii ''mistral'' \<mapsto> [?e], ascii ''claude'' \<mapsto> [?e],
         ascii ''gemini'' \<mapsto> [?e]]
    = (ascii ''- Error from OpenAI [A](https://a.example) (N/A)'' @ 0x0A #
         ascii ''- Paris is the capital of France [A](https://a.example) (N/A)'')"
    by code_simp
  show ?thesis
    unfolding a text_flow_response Let_def p
    by (simp add: cb fb c provider_key_def)
qed

end
